theory Spec2Isabelle
  imports Main
begin

section \<open>JavaScript strings\<close>

text \<open>
  A JavaScript string is a sequence of UTF-16 code units; \<open>length\<close> counts code units,
  as \<open>String.prototype.length\<close> does. String literals of the source are written with
  \<open>js\<close>.
\<close>

type_synonym jsstring = "nat list"

definition js :: "string \<Rightarrow> jsstring" where
  "js s = map of_char s"

text \<open>
  The code units matched by \<open>\s\<close> in a regular expression and removed by
  \<open>String.prototype.trim\<close>: WhiteSpace and LineTerminator of ECMAScript (tab, line feed,
  vertical tab, form feed, carriage return, space, no-break space, U+1680, U+2000 to U+200A,
  U+2028, U+2029, U+202F, U+205F, U+3000, U+FEFF).
\<close>

definition is_ws :: "nat \<Rightarrow> bool" where
  "is_ws c = (c = 9 \<or> c = 10 \<or> c = 11 \<or> c = 12 \<or> c = 13 \<or> c = 32 \<or> c = 160 \<or> c = 5760
     \<or> (8192 \<le> c \<and> c \<le> 8202) \<or> c = 8232 \<or> c = 8233 \<or> c = 8239 \<or> c = 8287
     \<or> c = 12288 \<or> c = 65279)"

text \<open>The character class \<open>[.!?]\<close>.\<close>

definition is_punct :: "nat \<Rightarrow> bool" where
  "is_punct c = (c = 46 \<or> c = 33 \<or> c = 63)"

definition trim :: "jsstring \<Rightarrow> jsstring" where
  "trim s = rev (dropWhile is_ws (rev (dropWhile is_ws s)))"

text \<open>Removing every whitespace code unit: what is left when whitespace is ignored.\<close>

definition strip_ws :: "jsstring \<Rightarrow> jsstring" where
  "strip_ws s = filter (\<lambda>c. \<not> is_ws c) s"

definition blank :: "jsstring \<Rightarrow> bool" where
  "blank s = list_all is_ws s"

section \<open>Regular expressions and \<open>String.prototype.split\<close>\<close>

text \<open>
  A regular expression is modelled by its match at the start of a string: the number of
  code units the match consumes, or \<open>None\<close>. \<open>greedy lo k n\<close> is a greedy quantifier with
  backtracking: the quantified class can consume at most \<open>n\<close> code units here and must
  consume at least \<open>lo\<close>; the counts \<open>n\<close>, \<open>n - 1\<close>, ... are tried in this order, and the
  first for which the rest of the pattern \<open>k\<close> matches wins.
\<close>

fun greedy :: "nat \<Rightarrow> (nat \<Rightarrow> nat option) \<Rightarrow> nat \<Rightarrow> nat option" where
  "greedy lo k 0 = (if lo = 0 then k 0 else None)"
| "greedy lo k (Suc n) =
     (if Suc n < lo then None
      else (case k (Suc n) of Some r \<Rightarrow> Some r | None \<Rightarrow> greedy lo k n))"

text \<open>\<open>/\n\s*\n/\<close>: a line feed, whitespace, a line feed.\<close>

definition re_blank_line :: "jsstring \<Rightarrow> nat option" where
  "re_blank_line s =
     (case s of
        [] \<Rightarrow> None
      | c # r \<Rightarrow>
          if c = 10
          then greedy 0 (\<lambda>j. if j < length r \<and> r ! j = 10 then Some (j + 2) else None)
                 (length (takeWhile is_ws r))
          else None)"

text \<open>\<open>/([.!?]+\s+)/\<close>: the capture group is the whole match.\<close>

definition re_sentence_end :: "jsstring \<Rightarrow> nat option" where
  "re_sentence_end s =
     greedy 1 (\<lambda>j. greedy 1 (\<lambda>w. Some (j + w)) (length (takeWhile is_ws (drop j s))))
       (length (takeWhile is_punct s))"

text \<open>\<open>/\s+/\<close>.\<close>

definition re_spaces :: "jsstring \<Rightarrow> nat option" where
  "re_spaces s = greedy 1 Some (length (takeWhile is_ws s))"

text \<open>
  The loop of \<open>RegExp.prototype[Symbol.split]\<close>: \<open>piece\<close> holds, reversed, the code units
  between the end \<open>p\<close> of the last match and the position \<open>q\<close> where a match is tried next.
  A match at \<open>q\<close> that ends at \<open>p\<close> (an empty match right after the last one) is skipped;
  any other match closes the piece, and with \<open>cap\<close> the text of the capture group follows
  it in the result.
\<close>

function split_loop ::
  "(jsstring \<Rightarrow> nat option) \<Rightarrow> bool \<Rightarrow> jsstring \<Rightarrow> jsstring \<Rightarrow> jsstring list" where
  "split_loop m cap piece [] = [rev piece]"
| "split_loop m cap piece (c # cs) =
     (case m (c # cs) of
        None \<Rightarrow> split_loop m cap (c # piece) cs
      | Some n \<Rightarrow>
          if n = 0 then
            (if piece = [] then split_loop m cap [c] cs
             else rev piece # (if cap then [[]] else []) @ split_loop m cap [c] cs)
          else rev piece # (if cap then [take n (c # cs)] else [])
                 @ split_loop m cap [] (drop n (c # cs)))"
  by pat_completeness auto
termination
  by (relation "measure (\<lambda>(m, cap, piece, s). length s)") auto

definition js_split :: "(jsstring \<Rightarrow> nat option) \<Rightarrow> bool \<Rightarrow> jsstring \<Rightarrow> jsstring list" where
  "js_split m cap s =
     (if s = [] then (if m [] = None then [[]] else []) else split_loop m cap [] s)"

section \<open>Text segmenter\<close>

record Paragraph =
  number :: nat
  paraText :: jsstring
  sentences :: "jsstring list"
  wordCount :: nat

text \<open>
  The \<open>reduce\<close> callback of \<open>splitIntoSentences\<close>, with the index \<open>i\<close> of the element \<open>cur\<close>
  and the rest of the array after it: \<open>arr[i + 1] || ''\<close> is the head of the rest, or the
  empty string at the end of the array.
\<close>

fun reduce_sentences :: "nat \<Rightarrow> jsstring list \<Rightarrow> jsstring list \<Rightarrow> jsstring list" where
  "reduce_sentences i [] acc = acc"
| "reduce_sentences i (cur # rest) acc =
     reduce_sentences (i + 1) rest
       (if i mod 2 = 0 \<and> trim cur \<noteq> []
        then acc @ [trim (cur @ (case rest of [] \<Rightarrow> [] | punct # _ \<Rightarrow> punct))]
        else acc)"

definition splitIntoSentences :: "jsstring \<Rightarrow> jsstring list" where
  "splitIntoSentences t =
     (let sentences = filter (\<lambda>s. length s > 0)
                        (reduce_sentences 0 (js_split re_sentence_end True t) [])
      in if length sentences > 0 then sentences else [t])"

definition splitIntoParagraphs :: "jsstring \<Rightarrow> Paragraph list" where
  "splitIntoParagraphs t =
     (let paraTexts = filter (\<lambda>p. length p > 0) (map trim (js_split re_blank_line False t))
      in map (\<lambda>(index, paraText).
                \<lparr>number = index + 1,
                 paraText = paraText,
                 sentences = splitIntoSentences paraText,
                 wordCount = length (js_split re_spaces False paraText)\<rparr>)
           (enumerate 0 paraTexts))"


text \<open>The elements at even positions of an array: the text pieces of a split with captures.\<close>

fun evens :: "'a list \<Rightarrow> 'a list" where
  "evens [] = []"
| "evens [x] = [x]"
| "evens (x # y # zs) = x # evens zs"

section \<open>Language detection\<close>

text \<open>\<open>s.includes(pat)\<close>: \<open>pat\<close> occurs in \<open>s\<close> as a contiguous substring.\<close>

fun includes_js :: "jsstring \<Rightarrow> jsstring \<Rightarrow> bool" where
  "includes_js [] pat = (pat = [])"
| "includes_js (c # cs) pat = (take (length pat) (c # cs) = pat \<or> includes_js cs pat)"

text \<open>
  \<open>Array.prototype.sort\<close> with a comparator is stable: elements that compare equal keep
  their order. It is modelled by insertion sort, which puts an element before the first one
  it does not compare greater than.
\<close>

fun insert_sorted :: "('a \<Rightarrow> 'a \<Rightarrow> int) \<Rightarrow> 'a \<Rightarrow> 'a list \<Rightarrow> 'a list" where
  "insert_sorted cmp x [] = [x]"
| "insert_sorted cmp x (y # ys) =
     (if cmp x y \<le> 0 then x # y # ys else y # insert_sorted cmp x ys)"

definition js_sort :: "('a \<Rightarrow> 'a \<Rightarrow> int) \<Rightarrow> 'a list \<Rightarrow> 'a list" where
  "js_sort cmp xs = foldr (insert_sorted cmp) xs []"

definition dutchWords :: "jsstring list" where
  "dutchWords = map js [''het'', ''van'', ''een'', ''de'', ''en'', ''is'', ''zijn'', ''voor'',
     ''met'', ''op'', ''aan'', ''worden'']"

definition englishWords :: "jsstring list" where
  "englishWords = map js [''the'', ''and'', ''is'', ''in'', ''to'', ''of'', ''for'', ''with'',
     ''on'', ''that'', ''this'', ''are'']"

text \<open>The word \<open>[102, 252, 114]\<close> is "f", u with diaeresis (U+00FC), "r".\<close>

definition germanWords :: "jsstring list" where
  "germanWords = [js ''der'', js ''die'', js ''das'', js ''und'', js ''ist'', [102, 252, 114],
     js ''mit'', js ''auf'', js ''werden'', js ''sich'']"

definition frenchWords :: "jsstring list" where
  "frenchWords = map js [''le'', ''la'', ''les'', ''de'', ''un'', ''une'', ''est'', ''pour'',
     ''dans'', ''avec'', ''sur'']"

text \<open>\<open>words.filter(word => sample.includes(' ' + word + ' ')).length\<close>\<close>

definition keywordCount :: "jsstring list \<Rightarrow> jsstring \<Rightarrow> nat" where
  "keywordCount ws sample =
     length (filter (\<lambda>word. includes_js sample (js '' '' @ word @ js '' '')) ws)"

text \<open>
  \<open>String.prototype.toLowerCase\<close> follows the Unicode case mapping of the platform; it is
  the parameter \<open>toLowerCase\<close>. The entries of \<open>scores\<close> are in insertion order, as
  \<open>Object.entries\<close> lists string keys, and \<open>sort(...)[0]\<close> is the head of the sorted
  array, which has four elements.
\<close>

definition detectLanguage :: "(jsstring \<Rightarrow> jsstring) \<Rightarrow> jsstring \<Rightarrow> string" where
  "detectLanguage toLowerCase t =
     (let sample = toLowerCase (take 1000 t);
          dutchCount = keywordCount dutchWords sample;
          englishCount = keywordCount englishWords sample;
          germanCount = keywordCount germanWords sample;
          frenchCount = keywordCount frenchWords sample;
          scores = [(''nl-NL'', dutchCount), (''en-US'', englishCount),
                    (''de-DE'', germanCount), (''fr-FR'', frenchCount)];
          detected = hd (js_sort (\<lambda>a b. int (snd b) - int (snd a)) scores)
      in fst detected)"

text \<open>Lower-casing of the letters A to Z only, to run \<open>detectLanguage\<close> on ASCII text.\<close>

definition asciiLower :: "jsstring \<Rightarrow> jsstring" where
  "asciiLower s = map (\<lambda>c. if 65 \<le> c \<and> c \<le> 90 then c + 32 else c) s"

section \<open>Document extraction and validation\<close>

definition MAX_PDF_SIZE :: nat where
  "MAX_PDF_SIZE = 5 * 1024 * 1024"

definition MAX_DOCX_SIZE :: nat where
  "MAX_DOCX_SIZE = 2 * 1024 * 1024"

definition MAX_TEXT_LENGTH :: nat where
  "MAX_TEXT_LENGTH = 100000"

text \<open>
  The errors of validation stand for the messages of the source; the numbers are the
  lengths the messages print.
\<close>

datatype validation_error = NoText | TooLarge nat | TooShort nat

record validation =
  valid :: bool
  error :: "validation_error option"

definition validateDocument :: "jsstring \<Rightarrow> validation" where
  "validateDocument t =
     (if t = [] \<or> length (trim t) = 0 then \<lparr>valid = False, error = Some NoText\<rparr>
      else if length t > MAX_TEXT_LENGTH
        then \<lparr>valid = False, error = Some (TooLarge (length t))\<rparr>
      else if length t < 10 then \<lparr>valid = False, error = Some (TooShort (length t))\<rparr>
      else \<lparr>valid = True, error = None\<rparr>)"

text \<open>
  An uploaded file: its name, its size in bytes, and \<open>parsed\<close>, the text that the reader of
  its type delivers (the pages joined by pdf.js, \<open>result.value\<close> of mammoth.js, the text of
  the blob), or \<open>None\<close> when the reader throws.
\<close>

record File =
  fileName :: jsstring
  fileSize :: nat
  parsed :: "jsstring option"

datatype fileType = PDF | DOCX | TXT

datatype extraction_error =
  UnsupportedType | FileTooLarge fileType | ReaderFailed fileType | ValidationError validation_error

definition extractTextFromPDF :: "File \<Rightarrow> extraction_error + jsstring" where
  "extractTextFromPDF f =
     (if fileSize f > MAX_PDF_SIZE then Inl (FileTooLarge PDF)
      else case parsed f of None \<Rightarrow> Inl (ReaderFailed PDF) | Some fullText \<Rightarrow> Inr (trim fullText))"

definition extractTextFromDOCX :: "File \<Rightarrow> extraction_error + jsstring" where
  "extractTextFromDOCX f =
     (if fileSize f > MAX_DOCX_SIZE then Inl (FileTooLarge DOCX)
      else case parsed f of None \<Rightarrow> Inl (ReaderFailed DOCX) | Some v \<Rightarrow> Inr (trim v))"

definition extractTextFromTXT :: "File \<Rightarrow> extraction_error + jsstring" where
  "extractTextFromTXT f =
     (case parsed f of None \<Rightarrow> Inl (ReaderFailed TXT) | Some t \<Rightarrow> Inr (trim t))"

definition endsWith :: "jsstring \<Rightarrow> jsstring \<Rightarrow> bool" where
  "endsWith s suffix =
     (length suffix \<le> length s \<and> drop (length s - length suffix) s = suffix)"

definition extractTextFromFile ::
  "(jsstring \<Rightarrow> jsstring) \<Rightarrow> File \<Rightarrow> extraction_error + (jsstring \<times> fileType)" where
  "extractTextFromFile toLowerCase f =
     (let filename = toLowerCase (fileName f);
          extracted =
            (if endsWith filename (js ''.pdf'')
               then map_sum id (\<lambda>t. (t, PDF)) (extractTextFromPDF f)
             else if endsWith filename (js ''.docx'')
               then map_sum id (\<lambda>t. (t, DOCX)) (extractTextFromDOCX f)
             else if endsWith filename (js ''.txt'')
               then map_sum id (\<lambda>t. (t, TXT)) (extractTextFromTXT f)
             else Inl UnsupportedType)
      in case extracted of
           Inl e \<Rightarrow> Inl e
         | Inr (t, ty) \<Rightarrow>
             (case error (validateDocument t) of
                Some e \<Rightarrow> Inl (ValidationError e)
              | None \<Rightarrow> Inr (t, ty)))"

record document =
  docId :: string
  docName :: jsstring
  docText :: jsstring
  docParagraphs :: "Paragraph list"
  language :: string
  docSize :: nat

text \<open>
  \<open>processFile\<close> up to the document it stores, or the message it shows instead. The
  identifier that \<open>generateId\<close> makes from the clock and a random number is the parameter
  \<open>newId\<close>. \<open>file.name.split('.').pop()\<close> is what follows the last full stop of the name.
\<close>

definition processFile ::
  "(jsstring \<Rightarrow> jsstring) \<Rightarrow> string \<Rightarrow> File \<Rightarrow> string + document" where
  "processFile toLowerCase newId f =
     (let ext = toLowerCase (rev (takeWhile (\<lambda>c. c \<noteq> 46) (rev (fileName f))))
      in if ext \<notin> set [js ''pdf'', js ''docx'', js ''txt'']
           then Inl ''Unsupported file type. Please upload PDF, DOCX, or TXT files.''
         else if fileSize f > 10 * 1024 * 1024
           then Inl ''File too large. Maximum size is 10MB.''
         else case extractTextFromFile toLowerCase f of
                Inl e \<Rightarrow> Inl ''Failed to process document. Please try again.''
              | Inr (t, ty) \<Rightarrow>
                  if t = [] \<or> length (trim t) < 100
                    then Inl ''Document appears to be empty or too short.''
                  else Inr \<lparr>docId = newId, docName = fileName f, docText = t,
                            docParagraphs = splitIntoParagraphs t,
                            language = detectLanguage toLowerCase t,
                            docSize = fileSize f\<rparr>)"


section \<open>Narration controller\<close>

text \<open>
  The controller is the group of global variables of the player and the functions that
  the buttons and the callbacks of the speech backend run. JavaScript runs one function at
  a time: an \<open>async\<close> function runs up to its next \<open>await\<close> and leaves the rest as a
  continuation. The model cuts every function at its \<open>await\<close>s. What is left to run is
  kept in the state: the timers that were set, the requests made to the backend whose
  callbacks may still arrive, and the jobs, which are the continuations of promises
  already resolved; jobs run before any other event.

  The environment is one that has a speech backend: the bridge of the Flutter WebView
  (\<open>isFlutter\<close>) or \<open>window.speechSynthesis\<close>. Updates of the page (buttons, progress bar),
  the choice of a voice and the rate, pitch and volume of an utterance are left out; the
  object store of reading positions is a map that is updated at once.
\<close>

record position =
  positionParagraphIndex :: nat
  totalParagraphs :: nat

text \<open>
  The local variables of one call of \<open>speakParagraphBrowser\<close>, shared by the callbacks of
  its utterances: the paragraph, the language, \<open>sentencesSpoken\<close>, \<open>isSpeaking\<close>, whether
  its promise is resolved, and the index of the call of \<open>speakParagraph\<close> that awaits the
  promise.
\<close>

record chain =
  chIndex :: nat
  chParagraph :: Paragraph
  chLanguage :: string
  sentencesSpoken :: nat
  isSpeaking :: bool
  resolved :: bool

text \<open>
  Who waits for a request to the backend: an utterance of a browser chain, or the call of
  \<open>ttsSpeak\<close> for sentence \<open>i\<close> in the loop of \<open>speakParagraphFlutter\<close>, with the paragraph
  of the loop and the index of the call of \<open>speakParagraph\<close> that awaits the loop.
\<close>

datatype owner = Utterance nat | BridgeCall nat Paragraph nat

record request =
  rText :: jsstring
  rLang :: string
  rOwner :: owner
  hasStarted :: bool
  hasEnded :: bool

text \<open>
  \<open>ParagraphDone index\<close> is the rest of \<open>speakParagraph(index)\<close> after the promise of its
  paragraph is resolved.
\<close>

datatype job = ParagraphDone nat

text \<open>
  The timers: the delay of \<open>playDocument\<close>, the delay of \<open>skipParagraph\<close>, the delay
  before \<open>speakNextSentence\<close> of a chain, the delay after the reply to a bridge request.
\<close>

datatype timer = AfterPlayDelay | AfterSkipDelay | NextSentence nat | SentenceGap nat

text \<open>What \<open>ttsSpeak\<close> answers: success, a result that is null or not successful, or a rejected promise.\<close>

datatype reply = Success | Failure | Rejected

record state =
  isFlutter :: bool
  currentDocument :: "document option"
  paragraphs :: "Paragraph list"
  currentParagraphIndex :: nat
  currentSentenceIndex :: nat
  isPaused :: bool
  isPlaying :: bool
  positions :: "string \<rightharpoonup> position"
  requests :: "request list"
  chains :: "chain list"
  queue :: "nat list"
  enginePaused :: bool
  timers :: "timer list"
  jobs :: "job list"
  alerts :: "string list"
  errorLog :: "string list"

definition alert :: "string \<Rightarrow> state \<Rightarrow> state" where
  "alert msg s = s\<lparr>alerts := alerts s @ [msg]\<rparr>"

definition consoleError :: "string \<Rightarrow> state \<Rightarrow> state" where
  "consoleError msg s = s\<lparr>errorLog := errorLog s @ [msg]\<rparr>"

text \<open>\<open>speechSynthesis.cancel()\<close> and the bridge call \<open>ttsStop\<close> empty the queue of the engine.\<close>

definition cancel :: "state \<Rightarrow> state" where
  "cancel s = s\<lparr>queue := []\<rparr>"

definition ttsStop :: "state \<Rightarrow> state" where
  "ttsStop s = s\<lparr>queue := []\<rparr>"

text \<open>
  A request to speak, by \<open>speechSynthesis.speak\<close> or by \<open>ttsSpeak\<close>: it is recorded with
  its owner and joins the queue of the engine. \<open>requests\<close> lists all requests in the order
  they were made.
\<close>

definition speak :: "jsstring \<Rightarrow> string \<Rightarrow> owner \<Rightarrow> state \<Rightarrow> state" where
  "speak t lang ow s =
     s\<lparr>requests := requests s @
          [\<lparr>rText = t, rLang = lang, rOwner = ow, hasStarted = False, hasEnded = False\<rparr>],
       queue := queue s @ [length (requests s)]\<rparr>"

text \<open>\<open>currentDocument?.language || 'en-US'\<close>\<close>

definition documentLanguage :: "state \<Rightarrow> string" where
  "documentLanguage s =
     (case currentDocument s of
        None \<Rightarrow> ''en-US''
      | Some d \<Rightarrow> if language d = [] then ''en-US'' else language d)"

text \<open>
  \<open>saveReadingPosition\<close> and \<open>clearReadingPosition\<close> test \<open>currentDocument\<close>, wait for the
  database and then write to the store. Here the write is done at the call: the record
  that \<open>saveReadingPosition\<close> stores has the index of the paragraph at the call, where the
  source reads it once the database is open.
\<close>

definition saveReadingPosition :: "state \<Rightarrow> state" where
  "saveReadingPosition s =
     (case currentDocument s of
        None \<Rightarrow> s
      | Some d \<Rightarrow>
          s\<lparr>positions := (positions s)(docId d \<mapsto>
               \<lparr>positionParagraphIndex = currentParagraphIndex s,
                totalParagraphs = length (paragraphs s)\<rparr>)\<rparr>)"

definition clearReadingPosition :: "state \<Rightarrow> state" where
  "clearReadingPosition s =
     (case currentDocument s of
        None \<Rightarrow> s
      | Some d \<Rightarrow> s\<lparr>positions := (positions s)(docId d := None)\<rparr>)"

definition stopReading :: "state \<Rightarrow> state" where
  "stopReading s =
     (let s1 = s\<lparr>isPlaying := False, isPaused := False,
                 currentParagraphIndex := 0, currentSentenceIndex := 0\<rparr>;
          s2 = (if isFlutter s1 then ttsStop s1 else cancel s1)
      in clearReadingPosition s2)"

text \<open>\<open>resolve()\<close> of the promise of a chain: the first call queues the continuation.\<close>

definition resolve :: "nat \<Rightarrow> state \<Rightarrow> state" where
  "resolve cid s =
     (let c = chains s ! cid
      in if resolved c then s
         else s\<lparr>chains := (chains s)[cid := c\<lparr>resolved := True\<rparr>],
                jobs := jobs s @ [ParagraphDone (chIndex c)]\<rparr>)"

definition speakNextSentence :: "nat \<Rightarrow> state \<Rightarrow> state" where
  "speakNextSentence cid s =
     (let c = chains s ! cid
      in if sentencesSpoken c \<ge> length (sentences (chParagraph c)) \<or> \<not> isPlaying s \<or> isPaused s
           then resolve cid s
         else if isSpeaking c then s
         else speak (sentences (chParagraph c) ! sentencesSpoken c) (chLanguage c) (Utterance cid)
                (s\<lparr>chains := (chains s)[cid := c\<lparr>isSpeaking := True\<rparr>]\<rparr>))"

definition speakParagraphBrowser :: "nat \<Rightarrow> Paragraph \<Rightarrow> state \<Rightarrow> state" where
  "speakParagraphBrowser index paragraph s =
     speakNextSentence (length (chains s))
       (s\<lparr>chains := chains s @
            [\<lparr>chIndex = index, chParagraph = paragraph, chLanguage = documentLanguage s,
              sentencesSpoken = 0, isSpeaking = False, resolved = False\<rparr>]\<rparr>)"

text \<open>
  The loop of \<open>speakParagraphFlutter\<close> from its test \<open>i < paragraph.sentences.length\<close>
  to the next \<open>await\<close> or to the end of the function, where the promise of the paragraph
  is resolved.
\<close>

definition sentenceLoop :: "nat \<Rightarrow> Paragraph \<Rightarrow> string \<Rightarrow> nat \<Rightarrow> state \<Rightarrow> state" where
  "sentenceLoop index paragraph lang i s =
     (if i < length (sentences paragraph) then
        (if \<not> isPlaying s \<or> isPaused s
           then (let s1 = s\<lparr>currentSentenceIndex := i\<rparr>
                 in s1\<lparr>jobs := jobs s1 @ [ParagraphDone index]\<rparr>)
         else speak (sentences paragraph ! i) lang (BridgeCall index paragraph i)
                (s\<lparr>currentSentenceIndex := i\<rparr>))
      else (let s1 = s\<lparr>currentSentenceIndex := 0\<rparr>
            in s1\<lparr>jobs := jobs s1 @ [ParagraphDone index]\<rparr>))"

definition speakParagraphFlutter :: "nat \<Rightarrow> Paragraph \<Rightarrow> state \<Rightarrow> state" where
  "speakParagraphFlutter index paragraph s =
     sentenceLoop index paragraph (documentLanguage s) (currentSentenceIndex s) s"

definition speakParagraph :: "nat \<Rightarrow> state \<Rightarrow> state" where
  "speakParagraph index s =
     (if index \<ge> length (paragraphs s)
        then alert ''Finished reading document!'' (stopReading s)
      else if \<not> isPlaying s \<or> isPaused s then s
      else (let s1 = s\<lparr>currentParagraphIndex := index\<rparr>;
                paragraph = paragraphs s ! index
            in if isFlutter s then speakParagraphFlutter index paragraph s1
               else speakParagraphBrowser index paragraph s1))"

definition runJob :: "job \<Rightarrow> state \<Rightarrow> state" where
  "runJob j s =
     (case j of ParagraphDone index \<Rightarrow>
        if isPlaying s \<and> \<not> isPaused s then speakParagraph (index + 1) s else s)"

definition playDocument :: "state \<Rightarrow> state" where
  "playDocument s =
     (if currentDocument s = None \<or> length (paragraphs s) = 0 then alert ''No document loaded'' s
      else (let s1 = (if \<not> isFlutter s then cancel s else s);
                s2 = (if \<not> isPaused s1
                      then s1\<lparr>currentParagraphIndex := 0, currentSentenceIndex := 0\<rparr>
                      else s1);
                s3 = s2\<lparr>isPlaying := True, isPaused := False\<rparr>
            in s3\<lparr>timers := timers s3 @ [AfterPlayDelay]\<rparr>))"

definition togglePauseResume :: "state \<Rightarrow> state" where
  "togglePauseResume s =
     (if isPaused s then
        (let s1 = s\<lparr>isPaused := False\<rparr>;
             s2 = (if isFlutter s1 then s1
                   else if enginePaused s1 then s1\<lparr>enginePaused := False\<rparr> else s1)
         in playDocument s2)
      else
        (let s1 = s\<lparr>isPaused := True\<rparr>;
             s2 = (if isFlutter s1 then ttsStop s1
                   else if queue s1 \<noteq> [] then s1\<lparr>enginePaused := True\<rparr> else s1)
         in saveReadingPosition s2))"

text \<open>
  The end of \<open>skipParagraph\<close>, from the update of the index: the speech starts again
  after a delay.
\<close>

definition skipTo :: "nat \<Rightarrow> state \<Rightarrow> state" where
  "skipTo newIndex s =
     (let s1 = s\<lparr>currentParagraphIndex := newIndex, currentSentenceIndex := 0\<rparr>
      in s1\<lparr>timers := timers s1 @ [AfterSkipDelay]\<rparr>)"

definition skipParagraph :: "int \<Rightarrow> state \<Rightarrow> state" where
  "skipParagraph direction s =
     (if \<not> isPlaying s \<or> length (paragraphs s) = 0 then s
      else (let s1 = (if isFlutter s then ttsStop s else cancel s);
                newIndex = int (currentParagraphIndex s1) + direction
            in if newIndex < 0 then skipTo 0 s1
               else if newIndex \<ge> int (length (paragraphs s1))
                 then alert ''Finished reading document!'' (stopReading s1)
               else skipTo (nat newIndex) s1))"

subsection \<open>Callbacks\<close>

definition settle :: "nat \<Rightarrow> state \<Rightarrow> state" where
  "settle rid s =
     s\<lparr>requests := (requests s)[rid := (requests s ! rid)\<lparr>hasEnded := True\<rparr>],
       queue := removeAll rid (queue s)\<rparr>"

definition onstart :: "nat \<Rightarrow> state \<Rightarrow> state" where
  "onstart rid s =
     (if hasStarted (requests s ! rid) then s
      else s\<lparr>requests := (requests s)[rid := (requests s ! rid)\<lparr>hasStarted := True\<rparr>]\<rparr>)"

definition onend :: "nat \<Rightarrow> nat \<Rightarrow> state \<Rightarrow> state" where
  "onend rid cid s =
     (if hasEnded (requests s ! rid) then s
      else (let s1 = settle rid s;
                c = chains s1 ! cid;
                s2 = s1\<lparr>chains := (chains s1)[cid :=
                          c\<lparr>isSpeaking := False, sentencesSpoken := sentencesSpoken c + 1\<rparr>]\<rparr>
            in s2\<lparr>timers := timers s2 @ [NextSentence cid]\<rparr>))"

definition onerror :: "nat \<Rightarrow> nat \<Rightarrow> state \<Rightarrow> state" where
  "onerror rid cid s =
     (let s1 = consoleError ''[Browser TTS] error:'' (s\<lparr>queue := removeAll rid (queue s)\<rparr>);
          c = chains s1 ! cid;
          s2 = s1\<lparr>chains := (chains s1)[cid := c\<lparr>isSpeaking := False\<rparr>]\<rparr>
      in resolve cid s2)"

text \<open>
  The reply to \<open>ttsSpeak\<close> for the request \<open>rid\<close> of a loop: a result that is not
  successful is logged and the loop goes on to the delay between sentences; a rejected
  promise is caught at the end of \<open>speakParagraphFlutter\<close>, logged, and the function
  returns.
\<close>

definition bridgeReply :: "nat \<Rightarrow> nat \<Rightarrow> reply \<Rightarrow> state \<Rightarrow> state" where
  "bridgeReply rid index res s =
     (let s1 = settle rid s
      in case res of
           Success \<Rightarrow> s1\<lparr>timers := timers s1 @ [SentenceGap rid]\<rparr>
         | Failure \<Rightarrow>
             (let s2 = consoleError ''Flutter TTS failed:'' s1
              in s2\<lparr>timers := timers s2 @ [SentenceGap rid]\<rparr>)
         | Rejected \<Rightarrow>
             (let s2 = consoleError ''Flutter TTS error:'' s1
              in s2\<lparr>jobs := jobs s2 @ [ParagraphDone index]\<rparr>))"

definition fireTimer :: "timer \<Rightarrow> state \<Rightarrow> state" where
  "fireTimer t s =
     (case t of
        AfterPlayDelay \<Rightarrow> speakParagraph (currentParagraphIndex s) s
      | AfterSkipDelay \<Rightarrow> speakParagraph (currentParagraphIndex s) s
      | NextSentence cid \<Rightarrow> speakNextSentence cid s
      | SentenceGap rid \<Rightarrow>
          (case rOwner (requests s ! rid) of
             BridgeCall index paragraph i \<Rightarrow>
               sentenceLoop index paragraph (rLang (requests s ! rid)) (i + 1) s
           | Utterance cid \<Rightarrow> s))"

subsection \<open>The event loop\<close>

datatype event =
    ClickPlay | ClickPauseResume | ClickStop | ClickSkip int
  | TimerFires timer
  | UtteranceStart nat | UtteranceEnd nat | UtteranceError nat
  | BridgeReply nat reply
  | RunJob

text \<open>
  One turn of the event loop. While a job is queued only the job runs. A timer fires if it
  was set, and once; a callback belongs to a request that was made; the promise of a bridge
  request is settled once.
\<close>

definition step :: "event \<Rightarrow> state \<Rightarrow> state option" where
  "step e s =
     (case jobs s of
        j # rest \<Rightarrow> (if e = RunJob then Some (runJob j (s\<lparr>jobs := rest\<rparr>)) else None)
      | [] \<Rightarrow>
         (case e of
            RunJob \<Rightarrow> None
          | ClickPlay \<Rightarrow> Some (playDocument s)
          | ClickPauseResume \<Rightarrow> Some (togglePauseResume s)
          | ClickStop \<Rightarrow> Some (stopReading s)
          | ClickSkip direction \<Rightarrow> Some (skipParagraph direction s)
          | TimerFires t \<Rightarrow>
              if t \<in> set (timers s) then Some (fireTimer t (s\<lparr>timers := remove1 t (timers s)\<rparr>))
              else None
          | UtteranceStart rid \<Rightarrow>
              if rid < length (requests s) then
                (case rOwner (requests s ! rid) of
                   Utterance cid \<Rightarrow> Some (onstart rid s)
                 | BridgeCall index paragraph i \<Rightarrow> None)
              else None
          | UtteranceEnd rid \<Rightarrow>
              if rid < length (requests s) then
                (case rOwner (requests s ! rid) of
                   Utterance cid \<Rightarrow> Some (onend rid cid s)
                 | BridgeCall index paragraph i \<Rightarrow> None)
              else None
          | UtteranceError rid \<Rightarrow>
              if rid < length (requests s) then
                (case rOwner (requests s ! rid) of
                   Utterance cid \<Rightarrow> Some (onerror rid cid s)
                 | BridgeCall index paragraph i \<Rightarrow> None)
              else None
          | BridgeReply rid res \<Rightarrow>
              if rid < length (requests s) \<and> \<not> hasEnded (requests s ! rid) then
                (case rOwner (requests s ! rid) of
                   BridgeCall index paragraph i \<Rightarrow> Some (bridgeReply rid index res s)
                 | Utterance cid \<Rightarrow> None)
              else None))"

fun run :: "event list \<Rightarrow> state \<Rightarrow> state option" where
  "run [] s = Some s"
| "run (e # es) s = (case step e s of None \<Rightarrow> None | Some s' \<Rightarrow> run es s')"

text \<open>The events that are not actions of the user.\<close>

fun fromUser :: "event \<Rightarrow> bool" where
  "fromUser ClickPlay = True"
| "fromUser ClickPauseResume = True"
| "fromUser ClickStop = True"
| "fromUser (ClickSkip d) = True"
| "fromUser e = False"

text \<open>
  The callbacks of the backend and what they schedule: the events of an utterance, the
  reply of the bridge, the timers set by these, and the jobs.
\<close>

fun fromBackend :: "event \<Rightarrow> bool" where
  "fromBackend (UtteranceStart rid) = True"
| "fromBackend (UtteranceEnd rid) = True"
| "fromBackend (UtteranceError rid) = True"
| "fromBackend (BridgeReply rid res) = True"
| "fromBackend (TimerFires (NextSentence cid)) = True"
| "fromBackend (TimerFires (SentenceGap rid)) = True"
| "fromBackend RunJob = True"
| "fromBackend e = False"

text \<open>The player right after a document was loaded, before anything was played.\<close>

definition loaded :: "bool \<Rightarrow> document \<Rightarrow> state" where
  "loaded flutter d =
     \<lparr>isFlutter = flutter, currentDocument = Some d, paragraphs = docParagraphs d,
      currentParagraphIndex = 0, currentSentenceIndex = 0, isPaused = False, isPlaying = False,
      positions = Map.empty, requests = [], chains = [], queue = [], enginePaused = False,
      timers = [], jobs = [], alerts = [], errorLog = []\<rparr>"

text \<open>What a test of the controller observes: the texts of the requests to speak, in order.\<close>

definition spoken :: "state \<Rightarrow> jsstring list" where
  "spoken s = map rText (requests s)"

text \<open>A document made of the given text, as \<open>processFile\<close> stores it.\<close>

definition documentOf :: "string \<Rightarrow> string \<Rightarrow> jsstring \<Rightarrow> document" where
  "documentOf newId lang t =
     \<lparr>docId = newId, docName = js ''book.txt'', docText = t,
      docParagraphs = splitIntoParagraphs t, language = lang, docSize = length t\<rparr>"


text \<open>
  A book of three paragraphs, the first two of three sentences, the last of one, and what
  the examples below read from the state: whether it is playing, whether it is paused, the index of
  the paragraph, the index of the sentence, the texts requested so far.
\<close>

definition sampleBook :: document where
  "sampleBook = documentOf ''doc_1'' ''en-US''
     (js ''A1. A2. A3.'' @ [10, 10] @ js ''B1. B2. B3.'' @ [10, 10] @ js ''C1.'')"

definition view :: "state \<Rightarrow> bool \<times> bool \<times> nat \<times> nat \<times> jsstring list" where
  "view s = (isPlaying s, isPaused s, currentParagraphIndex s, currentSentenceIndex s, spoken s)"

text \<open>
  The state after a sequence of events (the state itself if an event of the sequence
  cannot happen), and the sample book being played: the first sentence requested, with the
  browser engine and with the Flutter bridge, and the browser engine at the last paragraph
  after two skips.
\<close>

definition after :: "event list \<Rightarrow> state \<Rightarrow> state" where
  "after es s = (case run es s of Some s' \<Rightarrow> s' | None \<Rightarrow> s)"

definition browserPlaying :: state where
  "browserPlaying = after [ClickPlay, TimerFires AfterPlayDelay] (loaded False sampleBook)"

definition flutterPlaying :: state where
  "flutterPlaying = after [ClickPlay, TimerFires AfterPlayDelay] (loaded True sampleBook)"

definition browserLastParagraph :: state where
  "browserLastParagraph =
     after [ClickPlay, TimerFires AfterPlayDelay, ClickSkip 1, TimerFires AfterSkipDelay,
            ClickSkip 1, TimerFires AfterSkipDelay] (loaded False sampleBook)"

text \<open>
  With the Flutter bridge: the second sentence of the first paragraph requested, and the
  last paragraph reached by two skips.
\<close>

definition flutterSecondSentence :: state where
  "flutterSecondSentence =
     after [ClickPlay, TimerFires AfterPlayDelay, BridgeReply 0 Success,
            TimerFires (SentenceGap 0)] (loaded True sampleBook)"

definition flutterLastParagraph :: state where
  "flutterLastParagraph =
     after [ClickPlay, TimerFires AfterPlayDelay, ClickSkip 1, TimerFires AfterSkipDelay,
            ClickSkip 1, TimerFires AfterSkipDelay] (loaded True sampleBook)"

text \<open>The callbacks of the browser engine and what they schedule.\<close>

fun fromBrowser :: "event \<Rightarrow> bool" where
  "fromBrowser (UtteranceStart rid) = True"
| "fromBrowser (UtteranceEnd rid) = True"
| "fromBrowser (UtteranceError rid) = True"
| "fromBrowser (TimerFires (NextSentence cid)) = True"
| "fromBrowser RunJob = True"
| "fromBrowser e = False"

section \<open>Properties of the text segmenter\<close>

lemmas segmenter_defs =
  js_def splitIntoParagraphs_def splitIntoSentences_def js_split_def re_blank_line_def
  re_sentence_end_def re_spaces_def trim_def is_ws_def is_punct_def enumerate_eq_zip Let_def

lemma greedy_SomeD:
  "greedy lo k n = Some r \<Longrightarrow> \<exists>j. lo \<le> j \<and> j \<le> n \<and> k j = Some r"
proof (induction n)
  case 0
  then show ?case by (auto split: if_splits)
next
  case (Suc n)
  show ?case
  proof (cases "k (Suc n)")
    case None
    with Suc.prems have "greedy lo k n = Some r" by (simp split: if_splits)
    from Suc.IH [OF this] show ?thesis by (meson le_Suc_eq)
  next
    case (Some r')
    with Suc.prems have "r' = r" and "lo \<le> Suc n" by (auto split: if_splits)
    with Some show ?thesis by blast
  qed
qed

lemma takeWhile_prefix_all:
  "j \<le> length (takeWhile P xs) \<Longrightarrow> i < j \<Longrightarrow> P (xs ! i)"
  by (metis length_takeWhile_le nth_length_takeWhile takeWhile_nth less_le_trans
      nth_mem set_takeWhileD)

lemma re_blank_line_ws:
  assumes "re_blank_line s = Some n"
  shows "list_all is_ws (take n s)"
proof -
  from assms obtain c r where s: "s = c # r" and c: "c = 10"
    by (auto simp: re_blank_line_def split: list.splits if_splits)
  from assms s c obtain j where j: "j \<le> length (takeWhile is_ws r)" "j < length r" "r ! j = 10"
    and n: "n = j + 2"
    by (auto simp: re_blank_line_def dest!: greedy_SomeD split: if_splits)
  have "is_ws (r ! i)" if "i < Suc j" for i
  proof (cases "i = j")
    case True
    with j show ?thesis by (simp add: is_ws_def)
  next
    case False
    with that have "i < j" by simp
    with j(1) show ?thesis by (rule takeWhile_prefix_all)
  qed
  then have "list_all is_ws (take (Suc j) r)"
    using j(2) by (auto simp: list_all_iff in_set_conv_nth)
  with s c n show ?thesis by (simp add: is_ws_def)
qed

lemma strip_ws_append [simp]: "strip_ws (xs @ ys) = strip_ws xs @ strip_ws ys"
  by (simp add: strip_ws_def)

lemma strip_ws_Nil [simp]: "strip_ws [] = []"
  by (simp add: strip_ws_def)

lemma strip_ws_blank: "list_all is_ws s \<Longrightarrow> strip_ws s = []"
  by (induction s) (auto simp: strip_ws_def)

lemma strip_ws_eq_Nil: "strip_ws s = [] \<longleftrightarrow> blank s"
  by (induction s) (auto simp: strip_ws_def blank_def)

lemma filter_dropWhile_neg: "filter (\<lambda>c. \<not> P c) (dropWhile P xs) = filter (\<lambda>c. \<not> P c) xs"
  by (induction xs) auto

lemma strip_ws_trim [simp]: "strip_ws (trim s) = strip_ws s"
  by (simp add: strip_ws_def trim_def filter_dropWhile_neg flip: rev_filter)

lemma strip_ws_concat_split_loop:
  "(\<forall>s n. m s = Some n \<longrightarrow> list_all is_ws (take n s)) \<Longrightarrow>
   cap = False \<Longrightarrow>
   strip_ws (concat (split_loop m cap piece s)) = strip_ws (rev piece @ s)"
proof (induction m cap piece s rule: split_loop.induct)
  case (1 m cap piece)
  show ?case by simp
next
  case (2 m cap piece c cs)
  show ?case
  proof (cases "m (c # cs)")
    case None
    with 2 show ?thesis by simp
  next
    case (Some n)
    show ?thesis
    proof (cases "n = 0")
      case True
      with Some 2 show ?thesis by (cases "piece = []") simp_all
    next
      case False
      from "2.prems"(1) Some have "strip_ws (take n (c # cs)) = []"
        by (blast intro: strip_ws_blank)
      moreover have "strip_ws (c # cs) = strip_ws (take n (c # cs)) @ strip_ws (drop n (c # cs))"
        by (metis append_take_drop_id strip_ws_append)
      ultimately show ?thesis using Some False 2 by simp
    qed
  qed
qed

lemma trim_eq_Nil: "trim s = [] \<longleftrightarrow> blank s"
proof -
  have "dropWhile is_ws s = [] \<longleftrightarrow> blank s"
    by (simp add: dropWhile_eq_Nil_conv blank_def list_all_iff)
  moreover have "dropWhile is_ws (rev (dropWhile is_ws s)) = [] \<longleftrightarrow> dropWhile is_ws s = []"
  proof
    assume a: "dropWhile is_ws (rev (dropWhile is_ws s)) = []"
    show "dropWhile is_ws s = []"
    proof (rule ccontr)
      assume n: "dropWhile is_ws s \<noteq> []"
      then have "\<not> is_ws (hd (dropWhile is_ws s))" by (rule hd_dropWhile)
      moreover from a have "\<forall>x \<in> set (dropWhile is_ws s). is_ws x"
        by (simp add: dropWhile_eq_Nil_conv)
      ultimately show False using n by (meson hd_in_set)
    qed
  qed (auto dest: set_dropWhileD)
  ultimately show ?thesis by (simp add: trim_def)
qed


lemma concat_split_loop_cap:
  "cap = True \<Longrightarrow> concat (split_loop m cap piece s) = rev piece @ s"
proof (induction m cap piece s rule: split_loop.induct)
  case (1 m cap piece)
  show ?case by simp
next
  case (2 m cap piece c cs)
  show ?case
  proof (cases "m (c # cs)")
    case None
    with 2 show ?thesis by simp
  next
    case (Some n)
    show ?thesis
    proof (cases "n = 0")
      case True
      with Some 2 show ?thesis by (cases "piece = []") simp_all
    next
      case False
      have "c # cs = take n (c # cs) @ drop n (c # cs)" by simp
      with Some False 2 show ?thesis by simp
    qed
  qed
qed

lemma split_loop_not_Nil: "split_loop m cap piece s \<noteq> []"
  by (induction m cap piece s rule: split_loop.induct) (auto split: option.splits)

lemma reduce_sentences_roundtrip:
  "even i \<Longrightarrow> \<forall>piece \<in> set (evens arr). \<not> blank piece \<Longrightarrow>
   strip_ws (concat (reduce_sentences i arr acc)) = strip_ws (concat acc) @ strip_ws (concat arr)"
proof (induction arr arbitrary: i acc rule: evens.induct)
  case 1
  show ?case by simp
next
  case (2 x)
  then show ?case by (simp add: trim_eq_Nil)
next
  case (3 x y zs)
  from "3.prems" have x: "trim x \<noteq> []" and rest: "\<forall>piece \<in> set (evens zs). \<not> blank piece"
    by (simp_all add: trim_eq_Nil)
  from "3.prems"(1) have "i mod 2 = 0" and "(i + 1) mod 2 \<noteq> 0"
    by presburger+
  then have step: "reduce_sentences i (x # y # zs) acc
      = reduce_sentences (i + 2) zs (acc @ [trim (x @ y)])"
    using x by (simp add: add.assoc)
  from "3.prems"(1) have "even (i + 2)" by simp
  from "3.IH" [OF this rest] show ?case
    unfolding step by simp
qed

lemma concat_filter_nonempty: "concat (filter (\<lambda>s. s \<noteq> []) xs) = concat xs"
  by (induction xs) auto

lemma splitIntoSentences_roundtrip:
  assumes "\<forall>piece \<in> set (evens (js_split re_sentence_end True t)). \<not> blank piece"
  shows "strip_ws (concat (splitIntoSentences t)) = strip_ws t"
proof -
  let ?arr = "js_split re_sentence_end True t"
  have c: "concat ?arr = t"
    by (simp add: js_split_def concat_split_loop_cap)
  have "strip_ws (concat (reduce_sentences 0 ?arr [])) = strip_ws t"
    using reduce_sentences_roundtrip [of 0 ?arr "[]"] assms c by simp
  then show ?thesis
    by (simp add: splitIntoSentences_def Let_def concat_filter_nonempty)
qed

lemma splitIntoSentences_not_Nil: "splitIntoSentences t \<noteq> []"
  by (simp add: splitIntoSentences_def Let_def)

lemma blank_concat: "blank (concat xs) \<longleftrightarrow> (\<forall>x \<in> set xs. blank x)"
  by (induction xs) (auto simp: blank_def)

lemma in_set_enumerateD: "(i, x) \<in> set (enumerate n xs) \<Longrightarrow> x \<in> set xs"
  by (auto simp: enumerate_eq_zip dest: set_zip_rightD)

lemma set_splitIntoParagraphs:
  assumes "p \<in> set (splitIntoParagraphs t)"
  shows "sentences p = splitIntoSentences (paraText p)"
    and "\<not> blank (paraText p)"
proof -
  let ?paraTexts = "filter (\<lambda>p. length p > 0) (map trim (js_split re_blank_line False t))"
  from assms obtain index x where ix: "(index, x) \<in> set (enumerate 0 ?paraTexts)"
    and p: "p = \<lparr>number = index + 1, paraText = x, sentences = splitIntoSentences x,
                 wordCount = length (js_split re_spaces False x)\<rparr>"
    by (auto simp: splitIntoParagraphs_def Let_def)
  from p show "sentences p = splitIntoSentences (paraText p)" by simp
  from ix have "x \<in> set ?paraTexts" by (rule in_set_enumerateD)
  then obtain piece where "x = trim piece" and "x \<noteq> []" by auto
  then have "trim x \<noteq> []" by (metis strip_ws_trim strip_ws_eq_Nil trim_eq_Nil)
  with p show "\<not> blank (paraText p)" by (simp add: trim_eq_Nil)
qed

lemma splitIntoParagraphs_eq_Nil:
  "splitIntoParagraphs t = [] \<longleftrightarrow> blank t"
proof -
  let ?pieces = "js_split re_blank_line False t"
  have s: "strip_ws (concat ?pieces) = strip_ws t"
    by (simp add: js_split_def strip_ws_concat_split_loop re_blank_line_ws)
  have "length (splitIntoParagraphs t) = length (filter (\<lambda>p. length p > 0) (map trim ?pieces))"
    by (simp add: splitIntoParagraphs_def Let_def)
  then have "splitIntoParagraphs t = [] \<longleftrightarrow> filter (\<lambda>p. length p > 0) (map trim ?pieces) = []"
    by (metis length_0_conv)
  also have "\<dots> \<longleftrightarrow> (\<forall>piece \<in> set ?pieces. blank piece)"
    by (auto simp: filter_empty_conv trim_eq_Nil)
  also have "\<dots> \<longleftrightarrow> strip_ws (concat ?pieces) = []"
    by (simp add: strip_ws_eq_Nil blank_concat)
  finally show ?thesis by (simp add: s strip_ws_eq_Nil)
qed


lemma split_loop_no_match:
  "\<forall>i. m (drop i s) = None \<Longrightarrow> split_loop m cap piece s = [rev piece @ s]"
proof (induction s arbitrary: piece)
  case Nil
  show ?case by simp
next
  case (Cons c cs)
  from Cons.prems have "m (drop 0 (c # cs)) = None" by blast
  then have none: "m (c # cs) = None" by simp
  have "\<forall>i. m (drop i cs) = None"
  proof
    fix i
    from Cons.prems have "m (drop (Suc i) (c # cs)) = None" by blast
    then show "m (drop i cs) = None" by simp
  qed
  from Cons.IH [OF this, of "c # piece"] none show ?case by simp
qed

lemma greedy_None: "(\<forall>j. lo \<le> j \<and> j \<le> n \<longrightarrow> k j = None) \<Longrightarrow> greedy lo k n = None"
  by (induction n) (auto split: option.splits)

lemma re_sentence_end_Nil: "re_sentence_end [] = None"
  by (simp add: re_sentence_end_def)

lemma trim_ends:
  "trim s = [] \<or> (\<not> is_ws (hd (trim s)) \<and> \<not> is_ws (last (trim s)))"
proof (cases "trim s = []")
  case True
  then show ?thesis by simp
next
  case False
  let ?a = "dropWhile is_ws s"
  let ?b = "dropWhile is_ws (rev ?a)"
  from False have b: "?b \<noteq> []" by (simp add: trim_def)
  have a: "?a \<noteq> []"
  proof
    assume "?a = []"
    then have "?b = []" by (simp only: rev.simps dropWhile.simps)
    with b show False by contradiction
  qed
  from b have "\<not> is_ws (hd ?b)" by (rule hd_dropWhile)
  then have l: "\<not> is_ws (last (trim s))" using b by (simp add: trim_def last_rev)
  have "rev ?a = takeWhile is_ws (rev ?a) @ ?b" by simp
  then have "last (rev ?a) = last ?b" using b by (metis last_appendR)
  then have "last ?b = hd ?a" using a by (simp add: last_rev)
  moreover from a have "\<not> is_ws (hd ?a)" by (rule hd_dropWhile)
  ultimately have "\<not> is_ws (hd (trim s))" using b by (simp add: trim_def hd_rev)
  with l show ?thesis by simp
qed

lemma trim_fixed: "x = [] \<or> (\<not> is_ws (hd x) \<and> \<not> is_ws (last x)) \<Longrightarrow> trim x = x"
proof (cases "x = []")
  case True
  then show ?thesis by (simp add: trim_def)
next
  case False
  assume "x = [] \<or> (\<not> is_ws (hd x) \<and> \<not> is_ws (last x))"
  with False have h: "\<not> is_ws (hd x)" and l: "\<not> is_ws (last x)" by simp_all
  from h False have "dropWhile is_ws x = x" by (cases x) simp_all
  moreover from l False have "dropWhile is_ws (rev x) = rev x"
    by (cases "rev x") (simp_all add: last_rev [symmetric] hd_rev)
  ultimately show ?thesis by (simp add: trim_def)
qed

lemma trim_trim [simp]: "trim (trim s) = trim s"
  by (rule trim_fixed) (rule trim_ends)

lemma splitIntoSentences_no_boundary:
  assumes "list_all (\<lambda>i. re_sentence_end (drop i t) = None) [0..<length t]"
  shows "splitIntoSentences t = (if blank t then [t] else [trim t])"
proof -
  have "\<forall>i. re_sentence_end (drop i t) = None"
  proof
    fix i
    show "re_sentence_end (drop i t) = None"
    proof (cases "i < length t")
      case True
      with assms show ?thesis by (simp add: list_all_iff)
    next
      case False
      then show ?thesis by (simp add: re_sentence_end_Nil)
    qed
  qed
  then have "js_split re_sentence_end True t = [t]"
    by (simp add: js_split_def split_loop_no_match re_sentence_end_Nil)
  then show ?thesis
    by (simp add: splitIntoSentences_def Let_def trim_eq_Nil)
qed

lemma paraText_trimmed:
  assumes "p \<in> set (splitIntoParagraphs t)"
  shows "trim (paraText p) = paraText p"
proof -
  let ?paraTexts = "filter (\<lambda>p. length p > 0) (map trim (js_split re_blank_line False t))"
  from assms obtain index x where ix: "(index, x) \<in> set (enumerate 0 ?paraTexts)"
    and p: "paraText p = x"
    by (auto simp: splitIntoParagraphs_def Let_def)
  from ix have "x \<in> set ?paraTexts" by (rule in_set_enumerateD)
  then obtain piece where "x = trim piece" by auto
  with p show ?thesis by simp
qed

text \<open>
  C9. The text "Hello world. This is a test! Really?", a blank line, "Second paragraph here."
  is split into exactly two paragraphs, numbered 1 and 2; the first has exactly the three
  sentences "Hello world.", "This is a test!", "Really?" in this order, the second has the
  one sentence "Second paragraph here.".
\<close>

theorem segment_example:
  "map sentences (splitIntoParagraphs
     (js ''Hello world. This is a test! Really?'' @ [10, 10] @ js ''Second paragraph here.''))
   = [[js ''Hello world.'', js ''This is a test!'', js ''Really?''],
      [js ''Second paragraph here.'']]
   \<and> map number (splitIntoParagraphs
     (js ''Hello world. This is a test! Really?'' @ [10, 10] @ js ''Second paragraph here.''))
   = [1, 2]"
  by (simp add: segmenter_defs)


text \<open>
  C5 (as amended). Segmentation is a total function. A text with at least one code unit that is not
  whitespace gives at least one paragraph; an empty or all-whitespace text gives no
  paragraph; every paragraph has at least one sentence, and a paragraph in which no
  sentence boundary (a run of ".", "!", "?" followed by whitespace) is found has its
  whole text as its only sentence.
\<close>

theorem segment_total:
  "(\<not> blank t \<longrightarrow> splitIntoParagraphs t \<noteq> [])
   \<and> (blank t \<longrightarrow> splitIntoParagraphs t = [])
   \<and> (\<forall>p \<in> set (splitIntoParagraphs t).
         sentences p \<noteq> [] \<and>
         (list_all (\<lambda>i. re_sentence_end (drop i (paraText p)) = None) [0..<length (paraText p)]
            \<longrightarrow> sentences p = [paraText p]))"
proof (intro conjI ballI impI)
  assume "\<not> blank t"
  then show "splitIntoParagraphs t \<noteq> []" by (simp add: splitIntoParagraphs_eq_Nil)
next
  assume "blank t"
  then show "splitIntoParagraphs t = []" by (simp add: splitIntoParagraphs_eq_Nil)
next
  fix p assume "p \<in> set (splitIntoParagraphs t)"
  then show "sentences p \<noteq> []"
    by (simp add: set_splitIntoParagraphs(1) splitIntoSentences_not_Nil)
next
  fix p assume p: "p \<in> set (splitIntoParagraphs t)"
    and n: "list_all (\<lambda>i. re_sentence_end (drop i (paraText p)) = None) [0..<length (paraText p)]"
  from p have "sentences p = splitIntoSentences (paraText p)" and "\<not> blank (paraText p)"
    and "trim (paraText p) = paraText p"
    by (simp_all add: set_splitIntoParagraphs paraText_trimmed)
  with splitIntoSentences_no_boundary [OF n] show "sentences p = [paraText p]" by simp
qed

theorem segment_total_witness:
  "\<not> blank (js ''One two'' @ [10, 10] @ js ''Three. Four'')
   \<and> splitIntoParagraphs (js ''One two'' @ [10, 10] @ js ''Three. Four'') \<noteq> []
   \<and> blank [32, 10, 9]
   \<and> splitIntoParagraphs [32, 10, 9] = []
   \<and> splitIntoParagraphs (js ''One two'' @ [10, 10] @ js ''Three. Four'')
       = [\<lparr>number = 1, paraText = js ''One two'', sentences = [js ''One two''], wordCount = 2\<rparr>,
          \<lparr>number = 2, paraText = js ''Three. Four'',
            sentences = [js ''Three.'', js ''Four''], wordCount = 2\<rparr>]
   \<and> list_all (\<lambda>i. re_sentence_end (drop i (js ''One two'')) = None) [0..<length (js ''One two'')]"
proof -
  let ?t = "js ''One two'' @ [10, 10] @ js ''Three. Four''"
  let ?p = "\<lparr>number = 1, paraText = js ''One two'', sentences = [js ''One two''], wordCount = 2\<rparr>"
  let ?q = "\<lparr>number = 2, paraText = js ''Three. Four'',
            sentences = [js ''Three.'', js ''Four''], wordCount = 2\<rparr>"
  have n: "\<not> blank ?t" by (simp add: js_def blank_def is_ws_def)
  have b: "blank [32, 10, 9]" by (simp add: blank_def is_ws_def)
  have v: "splitIntoParagraphs ?t = [?p, ?q]"
    by (simp add: segmenter_defs)
  have nb: "list_all (\<lambda>i. re_sentence_end (drop i (js ''One two'')) = None)
      [0..<length (js ''One two'')]"
    by (simp add: js_def re_sentence_end_def is_punct_def is_ws_def)
  have m: "?p \<in> set (splitIntoParagraphs ?t)" unfolding v by simp
  from segment_total [of ?t] n have 1: "splitIntoParagraphs ?t \<noteq> []" by blast
  from segment_total [of "[32, 10, 9]"] b have 2: "splitIntoParagraphs [32, 10, 9] = []"
    by blast
  from segment_total [of ?t]
  have "\<forall>p \<in> set (splitIntoParagraphs ?t). sentences p \<noteq> [] \<and>
         (list_all (\<lambda>i. re_sentence_end (drop i (paraText p)) = None) [0..<length (paraText p)]
            \<longrightarrow> sentences p = [paraText p])"
    by (elim conjE)
  from bspec [OF this m] nb have 3: "sentences ?p = [js ''One two'']" by simp
  from n 1 b 2 v nb 3 show ?thesis by blast
qed

text \<open>
  The text of one space is not empty, and it has no paragraph: "every non-empty text gives
  at least one paragraph" fails for it.
\<close>

theorem segment_whitespace_counterexample:
  "length [32 :: nat] = 1 \<and> splitIntoParagraphs [32] = []"
  by (simp add: segmenter_defs)


text \<open>
  C6 (as amended). For a paragraph of a segmented text in which every piece of text between two
  sentence boundaries (and before the first, and after the last) has a code unit that is
  not whitespace, the sentences concatenated in order are, whitespace ignored, the text of
  the paragraph.
\<close>

theorem sentences_roundtrip:
  assumes "p \<in> set (splitIntoParagraphs t)"
    and "list_all (\<lambda>piece. \<not> blank piece) (evens (js_split re_sentence_end True (paraText p)))"
  shows "strip_ws (concat (sentences p)) = strip_ws (paraText p)"
proof -
  from assms(1) have "sentences p = splitIntoSentences (paraText p)"
    by (rule set_splitIntoParagraphs)
  moreover from assms(2)
  have "\<forall>piece \<in> set (evens (js_split re_sentence_end True (paraText p))). \<not> blank piece"
    by (simp add: list_all_iff)
  ultimately show ?thesis by (simp add: splitIntoSentences_roundtrip)
qed

text \<open>
  The paragraph "... hello" starts with a run of full stops followed by a space; the piece
  before this boundary is empty, and the full stops are in no sentence.
\<close>

theorem sentences_roundtrip_counterexample:
  "map paraText (splitIntoParagraphs (js ''... hello'')) = [js ''... hello'']
   \<and> map sentences (splitIntoParagraphs (js ''... hello'')) = [[js ''hello'']]
   \<and> strip_ws (js ''hello'') \<noteq> strip_ws (js ''... hello'')"
  by (simp add: segmenter_defs strip_ws_def)


theorem sentences_roundtrip_witness:
  "splitIntoParagraphs (js ''Hi you. Bye!'')
     = [\<lparr>number = 1, paraText = js ''Hi you. Bye!'',
         sentences = [js ''Hi you.'', js ''Bye!''], wordCount = 3\<rparr>]
   \<and> evens (js_split re_sentence_end True (js ''Hi you. Bye!'')) = [js ''Hi you'', js ''Bye!'']
   \<and> strip_ws (concat [js ''Hi you.'', js ''Bye!'']) = strip_ws (js ''Hi you. Bye!'')"
proof -
  let ?p = "\<lparr>number = 1, paraText = js ''Hi you. Bye!'',
             sentences = [js ''Hi you.'', js ''Bye!''], wordCount = 3\<rparr>"
  have v: "splitIntoParagraphs (js ''Hi you. Bye!'') = [?p]"
    by (simp add: segmenter_defs)
  have e: "evens (js_split re_sentence_end True (js ''Hi you. Bye!'')) = [js ''Hi you'', js ''Bye!'']"
    by (simp add: segmenter_defs)
  have m: "?p \<in> set (splitIntoParagraphs (js ''Hi you. Bye!''))"
    unfolding v by simp
  have h: "list_all (\<lambda>piece. \<not> blank piece) (evens (js_split re_sentence_end True (paraText ?p)))"
    using e by (simp add: js_def blank_def is_ws_def)
  from sentences_roundtrip [OF m h] v e show ?thesis by simp
qed



section \<open>Properties of language detection\<close>

lemma includes_js_Nil: "pat \<noteq> [] \<Longrightarrow> \<not> includes_js [] pat"
  by simp

lemma keywordCount_Nil: "keywordCount ws [] = 0"
  by (simp add: keywordCount_def js_def)

lemma keywordCount_none:
  "\<forall>w \<in> set ws. \<not> includes_js sample (js '' '' @ w @ js '' '') \<Longrightarrow> keywordCount ws sample = 0"
  by (simp add: keywordCount_def)

lemma detect_head:
  "fst (hd (js_sort (\<lambda>a b. int (snd b) - int (snd a))
     [(''nl-NL'', a), (''en-US'', b), (''de-DE'', c), (''fr-FR'', d :: nat)]))
   \<in> {''nl-NL'', ''en-US'', ''de-DE'', ''fr-FR''}"
  by (simp add: js_sort_def)

lemma detect_head_dutch:
  "b \<le> a \<Longrightarrow> c \<le> a \<Longrightarrow> d \<le> a \<Longrightarrow>
   fst (hd (js_sort (\<lambda>a b. int (snd b) - int (snd a))
     [(''nl-NL'', a), (''en-US'', b), (''de-DE'', c), (''fr-FR'', d :: nat)])) = ''nl-NL''"
  by (simp add: js_sort_def)

text \<open>
  C10. \<open>detectLanguage\<close> is a total function, and for every text, whatever the case
  mapping, its result is one of the four tags nl-NL, en-US, de-DE, fr-FR. When the four
  keyword counts are equal it is nl-NL, the first entry of the table of scores: so it is
  for a text whose sample has none of the keywords between spaces, and for the empty text.
\<close>

theorem detectLanguage_total:
  "detectLanguage toLowerCase t \<in> {''nl-NL'', ''en-US'', ''de-DE'', ''fr-FR''}
   \<and> (keywordCount englishWords (toLowerCase (take 1000 t))
          = keywordCount dutchWords (toLowerCase (take 1000 t))
        \<and> keywordCount germanWords (toLowerCase (take 1000 t))
          = keywordCount dutchWords (toLowerCase (take 1000 t))
        \<and> keywordCount frenchWords (toLowerCase (take 1000 t))
          = keywordCount dutchWords (toLowerCase (take 1000 t))
        \<longrightarrow> detectLanguage toLowerCase t = ''nl-NL'')
   \<and> (list_all (\<lambda>w. \<not> includes_js (toLowerCase (take 1000 t)) (js '' '' @ w @ js '' ''))
          (dutchWords @ englishWords @ germanWords @ frenchWords)
        \<longrightarrow> detectLanguage toLowerCase t = ''nl-NL'')
   \<and> (toLowerCase [] = [] \<longrightarrow> detectLanguage toLowerCase [] = ''nl-NL'')"
proof (intro conjI impI)
  show "detectLanguage toLowerCase t \<in> {''nl-NL'', ''en-US'', ''de-DE'', ''fr-FR''}"
    unfolding detectLanguage_def Let_def by (rule detect_head)
next
  assume "keywordCount englishWords (toLowerCase (take 1000 t))
          = keywordCount dutchWords (toLowerCase (take 1000 t))
        \<and> keywordCount germanWords (toLowerCase (take 1000 t))
          = keywordCount dutchWords (toLowerCase (take 1000 t))
        \<and> keywordCount frenchWords (toLowerCase (take 1000 t))
          = keywordCount dutchWords (toLowerCase (take 1000 t))"
  then show "detectLanguage toLowerCase t = ''nl-NL''"
    unfolding detectLanguage_def Let_def by (intro detect_head_dutch) simp_all
next
  assume "list_all (\<lambda>w. \<not> includes_js (toLowerCase (take 1000 t)) (js '' '' @ w @ js '' ''))
          (dutchWords @ englishWords @ germanWords @ frenchWords)"
  then have "keywordCount dutchWords (toLowerCase (take 1000 t)) = 0"
    and "keywordCount englishWords (toLowerCase (take 1000 t)) = 0"
    and "keywordCount germanWords (toLowerCase (take 1000 t)) = 0"
    and "keywordCount frenchWords (toLowerCase (take 1000 t)) = 0"
    by (simp_all add: keywordCount_none list_all_iff)
  then show "detectLanguage toLowerCase t = ''nl-NL''"
    unfolding detectLanguage_def Let_def by (intro detect_head_dutch) simp_all
next
  assume "toLowerCase [] = []"
  then show "detectLanguage toLowerCase [] = ''nl-NL''"
    unfolding detectLanguage_def Let_def
    by (intro detect_head_dutch) (simp_all add: keywordCount_Nil)
qed

lemmas language_defs =
  detectLanguage_def keywordCount_def dutchWords_def englishWords_def germanWords_def
  frenchWords_def asciiLower_def js_sort_def js_def Let_def

theorem detectLanguage_total_witness:
  "detectLanguage asciiLower (js ''Hello world'') = ''nl-NL''
   \<and> detectLanguage asciiLower [] = ''nl-NL''
   \<and> keywordCount englishWords (asciiLower (take 1000 (js ''x het y the z der w le v''))) = 1
   \<and> keywordCount dutchWords (asciiLower (take 1000 (js ''x het y the z der w le v''))) = 1
   \<and> detectLanguage asciiLower (js ''x het y the z der w le v'') = ''nl-NL''
   \<and> detectLanguage asciiLower (js ''It is in the box'') = ''en-US''"
proof -
  let ?t = "js ''Hello world''"
  let ?u = "js ''x het y the z der w le v''"
  have a: "list_all (\<lambda>w. \<not> includes_js (asciiLower (take 1000 ?t)) (js '' '' @ w @ js '' ''))
          (dutchWords @ englishWords @ germanWords @ frenchWords)"
    by (simp add: language_defs)
  have b: "asciiLower [] = []" by (simp add: asciiLower_def)
  have c: "detectLanguage asciiLower (js ''It is in the box'') = ''en-US''"
    by (simp add: language_defs)
  have k: "keywordCount dutchWords (asciiLower (take 1000 ?u)) = 1"
    "keywordCount englishWords (asciiLower (take 1000 ?u)) = 1"
    "keywordCount germanWords (asciiLower (take 1000 ?u)) = 1"
    "keywordCount frenchWords (asciiLower (take 1000 ?u)) = 1"
    by (simp_all add: language_defs)
  from detectLanguage_total [of asciiLower ?t] a
  have 1: "detectLanguage asciiLower ?t = ''nl-NL''" by blast
  from detectLanguage_total [of asciiLower "[]"] b
  have 2: "detectLanguage asciiLower [] = ''nl-NL''" by blast
  from detectLanguage_total [of asciiLower ?u] k
  have 3: "detectLanguage asciiLower ?u = ''nl-NL''" by simp
  from 1 2 3 k c show ?thesis by blast
qed

section \<open>Properties of validation\<close>

lemma validateDocument_valid_iff:
  "valid (validateDocument t) \<longleftrightarrow> \<not> blank t \<and> 10 \<le> length t \<and> length t \<le> MAX_TEXT_LENGTH"
  by (auto simp: validateDocument_def trim_eq_Nil blank_def)

lemma validateDocument_error_iff:
  "error (validateDocument t) = None \<longleftrightarrow> valid (validateDocument t)"
  by (simp add: validateDocument_def)

lemma extractTextFromFile_valid:
  "extractTextFromFile toLowerCase f = Inr (t, ty) \<Longrightarrow> valid (validateDocument t)"
  by (auto simp: extractTextFromFile_def Let_def validateDocument_error_iff [symmetric]
      split: if_splits sum.splits option.splits)

text \<open>
  C8. Validation accepts an extracted text of exactly 100,000 code units: what the
  extractors for PDF, DOCX and TXT return is trimmed, so a text of this length is not blank
  (of the other texts of this length, validation accepts those that are not blank). It
  rejects a text of 100,001 code units and a text of fewer than 10, with an error.
  \<open>processFile\<close> rejects a file whose extracted text, trimmed, has fewer than 100 code
  units, and a document it stores has a text of 100 to 100,000 code units.
\<close>

theorem text_length_limits:
  "((extractTextFromPDF g = Inr x \<or> extractTextFromDOCX g = Inr x \<or> extractTextFromTXT g = Inr x)
        \<and> length x = 100000
      \<longrightarrow> validateDocument x = \<lparr>valid = True, error = None\<rparr>)
   \<and> (length t = 100000 \<and> \<not> blank t \<longrightarrow> validateDocument t = \<lparr>valid = True, error = None\<rparr>)
   \<and> (length t = 100001 \<longrightarrow> \<not> valid (validateDocument t)
         \<and> error (validateDocument t) = Some (if blank t then NoText else TooLarge 100001))
   \<and> (length t < 10 \<longrightarrow> \<not> valid (validateDocument t)
         \<and> error (validateDocument t) = Some (if blank t then NoText else TooShort (length t)))
   \<and> (extractTextFromFile toLowerCase f = Inr (t, ty) \<and> length (trim t) < 100
         \<longrightarrow> processFile toLowerCase newId f = Inl ''Document appears to be empty or too short.''
           \<or> processFile toLowerCase newId f = Inl ''File too large. Maximum size is 10MB.''
           \<or> processFile toLowerCase newId f
                = Inl ''Unsupported file type. Please upload PDF, DOCX, or TXT files.'')
   \<and> (processFile toLowerCase newId f = Inr d
         \<longrightarrow> 100 \<le> length (trim (docText d)) \<and> length (docText d) \<le> 100000)"
proof (intro conjI impI)
  assume a: "(extractTextFromPDF g = Inr x \<or> extractTextFromDOCX g = Inr x
      \<or> extractTextFromTXT g = Inr x) \<and> length x = 100000"
  then obtain raw where x: "x = trim raw"
    by (auto simp: extractTextFromPDF_def extractTextFromDOCX_def extractTextFromTXT_def
        split: if_splits option.splits)
  from a have l: "length x = 100000" by simp
  then have "x \<noteq> []" by auto
  with l show "validateDocument x = \<lparr>valid = True, error = None\<rparr>"
    unfolding x by (simp add: validateDocument_def MAX_TEXT_LENGTH_def)
next
  assume "length t = 100000 \<and> \<not> blank t"
  then show "validateDocument t = \<lparr>valid = True, error = None\<rparr>"
    by (auto simp: validateDocument_def trim_eq_Nil MAX_TEXT_LENGTH_def)
next
  assume l: "length t = 100001"
  then show "\<not> valid (validateDocument t)"
    by (simp add: validateDocument_valid_iff MAX_TEXT_LENGTH_def)
  from l show "error (validateDocument t) = Some (if blank t then NoText else TooLarge 100001)"
    by (auto simp: validateDocument_def trim_eq_Nil MAX_TEXT_LENGTH_def blank_def)
next
  assume l: "length t < 10"
  then show "\<not> valid (validateDocument t)"
    by (simp add: validateDocument_valid_iff)
  from l show "error (validateDocument t) = Some (if blank t then NoText else TooShort (length t))"
    by (auto simp: validateDocument_def trim_eq_Nil MAX_TEXT_LENGTH_def blank_def)
next
  assume "extractTextFromFile toLowerCase f = Inr (t, ty) \<and> length (trim t) < 100"
  then show "processFile toLowerCase newId f = Inl ''Document appears to be empty or too short.''
           \<or> processFile toLowerCase newId f = Inl ''File too large. Maximum size is 10MB.''
           \<or> processFile toLowerCase newId f
                = Inl ''Unsupported file type. Please upload PDF, DOCX, or TXT files.''"
    by (simp add: processFile_def Let_def)
next
  assume d: "processFile toLowerCase newId f = Inr d"
  then obtain ty where e: "extractTextFromFile toLowerCase f = Inr (docText d, ty)"
    and l: "\<not> length (trim (docText d)) < 100"
    by (auto simp: processFile_def Let_def split: if_splits sum.splits)
  from l show "100 \<le> length (trim (docText d))" by simp
  from extractTextFromFile_valid [OF e] show "length (docText d) \<le> 100000"
    by (simp add: validateDocument_valid_iff MAX_TEXT_LENGTH_def)
qed


theorem text_length_limits_witness:
  "extractTextFromTXT \<lparr>fileName = js ''big.txt'', fileSize = 100002,
        parsed = Some (32 # replicate 100000 97 @ [32])\<rparr> = Inr (replicate 100000 97)
   \<and> extractTextFromFile asciiLower \<lparr>fileName = js ''big.txt'', fileSize = 100002,
        parsed = Some (32 # replicate 100000 97 @ [32])\<rparr> = Inr (replicate 100000 97, TXT)
   \<and> validateDocument (replicate 100000 97) = \<lparr>valid = True, error = None\<rparr>
   \<and> error (validateDocument (replicate 100001 97)) = Some (TooLarge 100001)
   \<and> error (validateDocument (js ''too short'')) = Some (TooShort 9)
   \<and> processFile asciiLower ''doc_1''
        \<lparr>fileName = js ''note.TXT'', fileSize = 20, parsed = Some (js '' a note of 20 chars '')\<rparr>
      = Inl ''Document appears to be empty or too short.''
   \<and> length (trim (replicate 100 97)) = 100"
proof -
  let ?raw = "32 # replicate 100000 97 @ [32]"
  let ?f = "\<lparr>fileName = js ''note.TXT'', fileSize = 20, parsed = Some (js '' a note of 20 chars '')\<rparr>"
  let ?g = "\<lparr>fileName = js ''a.txt'', fileSize = 100, parsed = Some (replicate 100 97)\<rparr>"
  let ?d = "\<lparr>docId = ''doc_2'', docName = js ''a.txt'', docText = replicate 100 97,
             docParagraphs = splitIntoParagraphs (replicate 100 97),
             language = detectLanguage asciiLower (replicate 100 97), docSize = 100\<rparr>"
  have tr: "trim ?raw = replicate 100000 97"
    by (simp add: trim_def is_ws_def dropWhile_replicate dropWhile_append3)
  have nb: "\<not> blank (replicate n 97)" if "0 < n" for n
    using that by (simp add: blank_def list_all_iff is_ws_def)
  have t1: "trim (replicate n 97) = replicate n 97" for n
    by (simp add: trim_def is_ws_def dropWhile_replicate)
  let ?big = "\<lparr>fileName = js ''big.txt'', fileSize = 100002, parsed = Some ?raw\<rparr>"
  have x: "extractTextFromTXT ?big = Inr (replicate 100000 97)"
    by (simp add: extractTextFromTXT_def tr)
  have 0: "validateDocument (replicate 100000 97) = \<lparr>valid = True, error = None\<rparr>"
    using text_length_limits [where g = ?big and x = "replicate 100000 97"] x by simp
  have 1: "extractTextFromFile asciiLower ?big = Inr (replicate 100000 97, TXT)"
    using x 0 by (simp add: extractTextFromFile_def endsWith_def asciiLower_def js_def Let_def)
  have 2: "validateDocument (replicate 100000 97) = \<lparr>valid = True, error = None\<rparr>"
    using text_length_limits [where t = "replicate 100000 97"] nb [of 100000] by simp
  have 3: "error (validateDocument (replicate 100001 97)) = Some (TooLarge 100001)"
    using text_length_limits [where t = "replicate 100001 97"] nb [of 100001] by simp
  have s: "length (js ''too short'') = 9" "\<not> blank (js ''too short'')"
    by (simp_all add: js_def blank_def is_ws_def)
  have 4: "error (validateDocument (js ''too short'')) = Some (TooShort 9)"
    using text_length_limits [where t = "js ''too short''"] s by simp
  have e: "extractTextFromFile asciiLower ?f = Inr (js ''a note of 20 chars'', TXT)"
    by (simp add: extractTextFromFile_def extractTextFromTXT_def endsWith_def validateDocument_def
        MAX_TEXT_LENGTH_def asciiLower_def js_def trim_def is_ws_def Let_def)
  have l: "length (trim (js ''a note of 20 chars'')) < 100"
    by (simp add: js_def trim_def is_ws_def)
  have p: "processFile asciiLower ''doc_1'' ?f \<noteq> Inl ''File too large. Maximum size is 10MB.''"
    "processFile asciiLower ''doc_1'' ?f
       \<noteq> Inl ''Unsupported file type. Please upload PDF, DOCX, or TXT files.''"
    using e by (simp_all add: processFile_def asciiLower_def js_def Let_def)
  have 5: "processFile asciiLower ''doc_1'' ?f = Inl ''Document appears to be empty or too short.''"
    using text_length_limits [where toLowerCase = asciiLower and f = ?f
        and t = "js ''a note of 20 chars''" and ty = TXT and newId = "''doc_1''"] e l p
    by blast
  have v: "validateDocument (replicate 100 97) = \<lparr>valid = True, error = None\<rparr>"
    using nb [of 100] by (simp add: validateDocument_def t1 MAX_TEXT_LENGTH_def blank_def)
  have g: "processFile asciiLower ''doc_2'' ?g = Inr ?d"
    by (simp add: processFile_def extractTextFromFile_def extractTextFromTXT_def endsWith_def
        v t1 asciiLower_def js_def Let_def)
  have 6: "length (trim (replicate 100 97)) = 100"
    using text_length_limits [where toLowerCase = asciiLower and f = ?g
        and newId = "''doc_2''" and d = ?d] g by (simp add: t1)
  from x 1 2 3 4 5 6 show ?thesis by blast
qed





section \<open>Properties of the narration controller\<close>

lemmas controller_defs =
  step_def runJob_def playDocument_def togglePauseResume_def skipParagraph_def skipTo_def
  stopReading_def speakParagraph_def speakParagraphBrowser_def speakParagraphFlutter_def
  sentenceLoop_def speakNextSentence_def resolve_def speak_def documentLanguage_def
  saveReadingPosition_def clearReadingPosition_def cancel_def ttsStop_def alert_def
  consoleError_def settle_def onstart_def onend_def onerror_def bridgeReply_def fireTimer_def
  Let_def

lemma sampleBook_paragraphs:
  "docParagraphs sampleBook =
     [\<lparr>number = 1, paraText = js ''A1. A2. A3.'',
        sentences = [js ''A1.'', js ''A2.'', js ''A3.''], wordCount = 3\<rparr>,
      \<lparr>number = 2, paraText = js ''B1. B2. B3.'',
        sentences = [js ''B1.'', js ''B2.'', js ''B3.''], wordCount = 3\<rparr>,
      \<lparr>number = 3, paraText = js ''C1.'', sentences = [js ''C1.''], wordCount = 1\<rparr>]"
  by (simp add: sampleBook_def documentOf_def segmenter_defs)

lemma sampleBook_fields:
  "docId sampleBook = ''doc_1''" "language sampleBook = ''en-US''"
  by (simp_all add: sampleBook_def documentOf_def)

lemma spoken_update:
  "rText r = rText (rs ! rid) \<Longrightarrow> map rText (rs[rid := r]) = map rText rs"
  by (cases "rid < length rs") (simp_all add: map_update list_update_same_conv list_update_beyond)

lemma spoken_settle [simp]: "map rText (requests (settle rid s)) = map rText (requests s)"
  by (simp add: settle_def spoken_update)

lemma spoken_onstart [simp]: "map rText (requests (onstart rid s)) = map rText (requests s)"
  by (simp add: onstart_def spoken_update)

lemma spoken_resolve [simp]: "map rText (requests (resolve cid s)) = map rText (requests s)"
  by (simp add: resolve_def Let_def)

lemma spoken_stopReading [simp]: "map rText (requests (stopReading s)) = map rText (requests s)"
  by (simp add: stopReading_def ttsStop_def cancel_def clearReadingPosition_def Let_def
      split: option.splits)

text \<open>Fields that the helpers leave alone.\<close>

lemma settle_fields [simp]:
  "isPlaying (settle rid s) = isPlaying s" "isPaused (settle rid s) = isPaused s"
  "currentParagraphIndex (settle rid s) = currentParagraphIndex s"
  "currentSentenceIndex (settle rid s) = currentSentenceIndex s"
  "jobs (settle rid s) = jobs s" "timers (settle rid s) = timers s"
  "chains (settle rid s) = chains s" "paragraphs (settle rid s) = paragraphs s"
  "errorLog (settle rid s) = errorLog s" "alerts (settle rid s) = alerts s"
  "isFlutter (settle rid s) = isFlutter s"
  by (simp_all add: settle_def)

lemma resolve_fields [simp]:
  "isPlaying (resolve cid s) = isPlaying s" "isPaused (resolve cid s) = isPaused s"
  "currentParagraphIndex (resolve cid s) = currentParagraphIndex s"
  "currentSentenceIndex (resolve cid s) = currentSentenceIndex s"
  by (simp_all add: resolve_def Let_def)

lemma stopReading_fields [simp]:
  "\<not> isPlaying (stopReading s)" "\<not> isPaused (stopReading s)"
  "currentParagraphIndex (stopReading s) = 0" "currentSentenceIndex (stopReading s) = 0"
  "queue (stopReading s) = []" "alerts (stopReading s) = alerts s"
  "timers (stopReading s) = timers s" "jobs (stopReading s) = jobs s"
  by (simp_all add: stopReading_def ttsStop_def cancel_def clearReadingPosition_def Let_def
      split: option.splits)

lemma speakParagraph_stopped:
  "\<not> isPlaying s \<Longrightarrow>
   \<not> isPlaying (speakParagraph index s) \<and> spoken (speakParagraph index s) = spoken s"
  by (simp add: speakParagraph_def alert_def spoken_def)

lemma stopped_step:
  assumes "\<not> isPlaying s" and "\<not> fromUser e" and "step e s = Some s'"
  shows "\<not> isPlaying s' \<and> spoken s' = spoken s"
proof (cases "jobs s")
  case (Cons j rest)
  with assms(3) have s': "s' = runJob j (s\<lparr>jobs := rest\<rparr>)"
    by (simp add: step_def split: if_splits)
  with assms(1) show ?thesis
    by (cases j) (simp add: runJob_def spoken_def)
next
  case Nil
  show ?thesis
  proof (cases e)
    case (TimerFires t)
    with Nil assms(3) have s': "s' = fireTimer t (s\<lparr>timers := remove1 t (timers s)\<rparr>)"
      by (simp add: step_def split: if_splits)
    let ?s = "s\<lparr>timers := remove1 t (timers s)\<rparr>"
    have n: "\<not> isPlaying ?s" and sp: "spoken ?s = spoken s"
      using assms(1) by (simp_all add: spoken_def)
    show ?thesis
    proof (cases t)
      case AfterPlayDelay
      with s' speakParagraph_stopped [OF n] sp show ?thesis by (simp add: fireTimer_def)
    next
      case AfterSkipDelay
      with s' speakParagraph_stopped [OF n] sp show ?thesis by (simp add: fireTimer_def)
    next
      case (NextSentence cid)
      with s' n sp show ?thesis
        by (simp add: fireTimer_def speakNextSentence_def Let_def spoken_def)
    next
      case (SentenceGap rid)
      with s' n sp show ?thesis
        by (auto simp: fireTimer_def sentenceLoop_def Let_def spoken_def split: owner.splits)
    qed
  next
    case (UtteranceStart rid)
    with Nil assms show ?thesis
      by (auto simp: step_def onstart_def spoken_def spoken_update split: if_splits owner.splits)
  next
    case (UtteranceEnd rid)
    with Nil assms show ?thesis
      by (auto simp: step_def onend_def Let_def spoken_def split: if_splits owner.splits)
  next
    case (UtteranceError rid)
    with Nil assms show ?thesis
      by (auto simp: step_def onerror_def consoleError_def Let_def spoken_def
          split: if_splits owner.splits)
  next
    case (BridgeReply rid res)
    with Nil assms show ?thesis
      by (cases res)
        (auto simp: step_def bridgeReply_def consoleError_def Let_def spoken_def
          split: if_splits owner.splits)
  next
    case RunJob
    with Nil assms(3) show ?thesis by (simp add: step_def)
  qed (use assms(2) in simp_all)
qed

lemma stopped_run:
  "\<not> isPlaying s \<Longrightarrow> list_all (\<lambda>e. \<not> fromUser e) es \<Longrightarrow> run es s = Some s' \<Longrightarrow>
   \<not> isPlaying s' \<and> spoken s' = spoken s"
proof (induction es arbitrary: s)
  case Nil
  then show ?case by simp
next
  case (Cons e es)
  from Cons.prems(3) obtain s1 where s1: "step e s = Some s1" and r: "run es s1 = Some s'"
    by (auto split: option.splits)
  from Cons.prems(1,2) s1 have "\<not> isPlaying s1 \<and> spoken s1 = spoken s"
    by (intro stopped_step) simp_all
  with Cons.IH [of s1] Cons.prems(2) r show ?case by simp
qed


lemmas sample_defs =
  browserPlaying_def flutterPlaying_def browserLastParagraph_def flutterSecondSentence_def
  flutterLastParagraph_def after_def loaded_def
  sampleBook_paragraphs sampleBook_fields view_def spoken_def


text \<open>
  What a resume does at once, in any paused state with a document: \<open>togglePauseResume\<close>
  clears \<open>isPaused\<close> before it calls \<open>playDocument\<close>, which therefore takes the branch that
  resets both indices.
\<close>

lemma resume_resets_position:
  assumes "isPaused s" and "currentDocument s \<noteq> None" and "paragraphs s \<noteq> []"
  shows "currentParagraphIndex (togglePauseResume s) = 0
    \<and> currentSentenceIndex (togglePauseResume s) = 0
    \<and> isPlaying (togglePauseResume s) \<and> \<not> isPaused (togglePauseResume s)
    \<and> timers (togglePauseResume s) = timers s @ [AfterPlayDelay]"
  using assms by (auto simp add: togglePauseResume_def playDocument_def cancel_def Let_def)

text \<open>
  C1. Resuming after a pause in the middle of a paragraph: in the sample book with the
  Flutter bridge, the pause during "B1." leaves the controller paused at paragraph 1,
  sentence 1; after the resume and its delay the controller is playing, at paragraph 0,
  sentence 0, and the request it made is "A1.", the first sentence of the book, not "B2.".
  With the browser engine, a pause during "B2." of paragraph 1 and a resume are followed
  by the request for "A1." as well.
\<close>

theorem resume_restarts_document:
  "map_option view (run [ClickPlay, TimerFires AfterPlayDelay,
       BridgeReply 0 Success, TimerFires (SentenceGap 0),
       BridgeReply 1 Success, TimerFires (SentenceGap 1),
       BridgeReply 2 Success, TimerFires (SentenceGap 2), RunJob,
       ClickPauseResume, BridgeReply 3 Success, TimerFires (SentenceGap 3), RunJob]
      (loaded True sampleBook))
   = Some (True, True, 1, 1, [js ''A1.'', js ''A2.'', js ''A3.'', js ''B1.''])
   \<and> map_option view (run [ClickPlay, TimerFires AfterPlayDelay,
       BridgeReply 0 Success, TimerFires (SentenceGap 0),
       BridgeReply 1 Success, TimerFires (SentenceGap 1),
       BridgeReply 2 Success, TimerFires (SentenceGap 2), RunJob,
       ClickPauseResume, BridgeReply 3 Success, TimerFires (SentenceGap 3), RunJob,
       ClickPauseResume, TimerFires AfterPlayDelay]
      (loaded True sampleBook))
   = Some (True, False, 0, 0, [js ''A1.'', js ''A2.'', js ''A3.'', js ''B1.'', js ''A1.''])
   \<and> map_option view (run [ClickPlay, TimerFires AfterPlayDelay,
       UtteranceEnd 0, TimerFires (NextSentence 0), UtteranceEnd 1, TimerFires (NextSentence 0),
       UtteranceEnd 2, TimerFires (NextSentence 0), RunJob,
       UtteranceEnd 3, TimerFires (NextSentence 1), ClickPauseResume]
      (loaded False sampleBook))
   = Some (True, True, 1, 0, [js ''A1.'', js ''A2.'', js ''A3.'', js ''B1.'', js ''B2.''])
   \<and> map_option view (run [ClickPlay, TimerFires AfterPlayDelay,
       UtteranceEnd 0, TimerFires (NextSentence 0), UtteranceEnd 1, TimerFires (NextSentence 0),
       UtteranceEnd 2, TimerFires (NextSentence 0), RunJob,
       UtteranceEnd 3, TimerFires (NextSentence 1), ClickPauseResume,
       ClickPauseResume, TimerFires AfterPlayDelay]
      (loaded False sampleBook))
   = Some (True, False, 0, 0,
       [js ''A1.'', js ''A2.'', js ''A3.'', js ''B1.'', js ''B2.'', js ''A1.''])"
  by (simp add: loaded_def sampleBook_paragraphs sampleBook_fields controller_defs view_def spoken_def)

lemma guarded_step:
  assumes "\<not> isPlaying s \<or> isPaused s" and "fromBackend e" and "step e s = Some s'"
  shows "isPlaying s' = isPlaying s \<and> isPaused s' = isPaused s
    \<and> currentParagraphIndex s' = currentParagraphIndex s \<and> spoken s' = spoken s
    \<and> (fromBrowser e \<longrightarrow> currentSentenceIndex s' = currentSentenceIndex s)"
proof (cases "jobs s")
  case (Cons j rest)
  with assms(3) have s': "s' = runJob j (s\<lparr>jobs := rest\<rparr>)"
    by (simp add: step_def split: if_splits)
  with assms(1) show ?thesis
    by (cases j) (auto simp: runJob_def spoken_def)
next
  case Nil
  show ?thesis
  proof (cases e)
    case (TimerFires t)
    with Nil assms(3) have s': "s' = fireTimer t (s\<lparr>timers := remove1 t (timers s)\<rparr>)"
      by (simp add: step_def split: if_splits)
    show ?thesis
    proof (cases t)
      case (NextSentence cid)
      with s' assms(1) show ?thesis
        by (auto simp: fireTimer_def speakNextSentence_def Let_def spoken_def)
    next
      case (SentenceGap rid)
      with s' assms(1) TimerFires show ?thesis
        by (auto simp: fireTimer_def sentenceLoop_def Let_def spoken_def split: owner.splits)
    qed (use assms(2) TimerFires in simp_all)
  next
    case (UtteranceStart rid)
    with Nil assms show ?thesis
      by (auto simp: step_def onstart_def spoken_def spoken_update split: if_splits owner.splits)
  next
    case (UtteranceEnd rid)
    with Nil assms show ?thesis
      by (auto simp: step_def onend_def Let_def spoken_def split: if_splits owner.splits)
  next
    case (UtteranceError rid)
    with Nil assms show ?thesis
      by (auto simp: step_def onerror_def consoleError_def Let_def spoken_def
          split: if_splits owner.splits)
  next
    case (BridgeReply rid res)
    with Nil assms show ?thesis
      by (cases res)
        (auto simp: step_def bridgeReply_def consoleError_def Let_def spoken_def
          split: if_splits owner.splits)
  next
    case RunJob
    with Nil assms(3) show ?thesis by (simp add: step_def)
  qed (use assms(2) in simp_all)
qed

text \<open>
  C2 (as amended). The controller has no counter of request generations. What guards it
  against a callback of a superseded request is the pair of flags \<open>isPlaying\<close> and
  \<open>isPaused\<close>: while the controller is stopped or paused, no sequence of callbacks of the
  backend, with the timers and continuations they schedule, changes the index of the
  paragraph or makes a request to speak, and the flags stay as they are; the callbacks of
  the browser engine do not change the index of the sentence either.
\<close>

theorem callbacks_guarded_by_flags:
  "\<not> isPlaying s \<or> isPaused s \<Longrightarrow> list_all fromBackend es \<Longrightarrow> run es s = Some s' \<Longrightarrow>
   currentParagraphIndex s' = currentParagraphIndex s \<and> spoken s' = spoken s
   \<and> isPlaying s' = isPlaying s \<and> isPaused s' = isPaused s
   \<and> (list_all fromBrowser es \<longrightarrow> currentSentenceIndex s' = currentSentenceIndex s)"
proof (induction es arbitrary: s)
  case Nil
  then show ?case by simp
next
  case (Cons e es)
  from Cons.prems(3) obtain s1 where s1: "step e s = Some s1" and r: "run es s1 = Some s'"
    by (auto split: option.splits)
  from Cons.prems(2) have e: "fromBackend e" and es: "list_all fromBackend es" by simp_all
  note g = guarded_step [OF Cons.prems(1) e s1]
  from g Cons.prems(1) have "\<not> isPlaying s1 \<or> isPaused s1" by simp
  from Cons.IH [OF this es r] g show ?case by simp
qed

theorem callbacks_guarded_by_flags_witness:
  "view (stopReading browserPlaying) = (False, False, 0, 0, [js ''A1.''])
   \<and> map_option view (run [UtteranceError 0, RunJob] (stopReading browserPlaying))
       = Some (False, False, 0, 0, [js ''A1.''])
   \<and> view (togglePauseResume flutterPlaying) = (True, True, 0, 0, [js ''A1.''])
   \<and> map_option view (run [BridgeReply 0 Success, TimerFires (SentenceGap 0), RunJob]
         (togglePauseResume flutterPlaying))
       = Some (True, True, 0, 1, [js ''A1.''])"
proof -
  let ?s = "stopReading browserPlaying"
  let ?es = "[UtteranceError 0, RunJob]"
  let ?p = "togglePauseResume flutterPlaying"
  let ?fs = "[BridgeReply 0 Success, TimerFires (SentenceGap 0), RunJob]"
  have v: "view ?s = (False, False, 0, 0, [js ''A1.''])"
    by (simp add: sample_defs controller_defs)
  have r: "run ?es ?s = Some (after ?es ?s)"
    by (simp add: sample_defs controller_defs)
  have g: "\<not> isPlaying ?s \<or> isPaused ?s"
    by (simp add: controller_defs split: option.splits)
  have b: "list_all fromBackend ?es" "list_all fromBrowser ?es" by simp_all
  have w: "view ?p = (True, True, 0, 0, [js ''A1.''])"
    by (simp add: sample_defs controller_defs)
  then have h: "\<not> isPlaying ?p \<or> isPaused ?p" by (simp add: view_def)
  have q: "run ?fs ?p = Some (after ?fs ?p)"
    by (simp add: sample_defs controller_defs)
  have c: "currentSentenceIndex (after ?fs ?p) = 1"
    by (simp add: sample_defs controller_defs)
  have f: "list_all fromBackend ?fs" by simp
  from callbacks_guarded_by_flags [OF g b(1) r] b(2) v
  have 1: "view (after ?es ?s) = (False, False, 0, 0, [js ''A1.''])"
    by (simp add: view_def)
  from callbacks_guarded_by_flags [OF h f q] w c
  have 2: "view (after ?fs ?p) = (True, True, 0, 1, [js ''A1.''])"
    by (simp add: view_def)
  from r 1 have "map_option view (run ?es ?s) = Some (False, False, 0, 0, [js ''A1.''])"
    by (metis option.simps(9))
  moreover from q 2
  have "map_option view (run ?fs ?p) = Some (True, True, 0, 1, [js ''A1.''])"
    by (metis option.simps(9))
  ultimately show ?thesis using v w by blast
qed

text \<open>
  A skip leaves the controller playing, and then nothing guards it. In the sample book with
  the browser engine, paragraph 0 is read and "B1." of paragraph 1 is being spoken (request
  3) when the user skips backward: the index of the paragraph is 0. The error callback of
  the cancelled request 3 then moves the index to 2 and requests "C1."; had request 3
  completed instead, its callback would request "B2.".
\<close>

theorem stale_callback_counterexample:
  "map_option view (run [ClickPlay, TimerFires AfterPlayDelay,
       UtteranceEnd 0, TimerFires (NextSentence 0), UtteranceEnd 1, TimerFires (NextSentence 0),
       UtteranceEnd 2, TimerFires (NextSentence 0), RunJob, ClickSkip (- 1)]
      (loaded False sampleBook))
   = Some (True, False, 0, 0, [js ''A1.'', js ''A2.'', js ''A3.'', js ''B1.''])
   \<and> map_option view (run [ClickPlay, TimerFires AfterPlayDelay,
       UtteranceEnd 0, TimerFires (NextSentence 0), UtteranceEnd 1, TimerFires (NextSentence 0),
       UtteranceEnd 2, TimerFires (NextSentence 0), RunJob, ClickSkip (- 1),
       UtteranceError 3, RunJob]
      (loaded False sampleBook))
   = Some (True, False, 2, 0, [js ''A1.'', js ''A2.'', js ''A3.'', js ''B1.'', js ''C1.''])
   \<and> map_option view (run [ClickPlay, TimerFires AfterPlayDelay,
       UtteranceEnd 0, TimerFires (NextSentence 0), UtteranceEnd 1, TimerFires (NextSentence 0),
       UtteranceEnd 2, TimerFires (NextSentence 0), RunJob, ClickSkip (- 1),
       UtteranceEnd 3, TimerFires (NextSentence 1)]
      (loaded False sampleBook))
   = Some (True, False, 0, 0, [js ''A1.'', js ''A2.'', js ''A3.'', js ''B1.'', js ''B2.''])"
  by (simp add: loaded_def sampleBook_paragraphs sampleBook_fields controller_defs view_def spoken_def)

text \<open>
  C7. Stop is idempotent. From any state, \<open>stopReading\<close> leaves the controller not
  playing and not paused, both indices 0, the queue of the engine empty and the stored
  reading position of the current document cleared; a second \<open>stopReading\<close> changes
  nothing, and two clicks on the stop button lead to this state. The function has no
  failing branch.
\<close>

theorem stop_idempotent:
  "stopReading (stopReading s) = stopReading s
   \<and> \<not> isPlaying (stopReading s) \<and> \<not> isPaused (stopReading s)
   \<and> currentParagraphIndex (stopReading s) = 0 \<and> currentSentenceIndex (stopReading s) = 0
   \<and> queue (stopReading s) = []
   \<and> (case currentDocument s of
         None \<Rightarrow> positions (stopReading s) = positions s
       | Some d \<Rightarrow> positions (stopReading s) (docId d) = None)
   \<and> (jobs s = [] \<longrightarrow> run [ClickStop, ClickStop] s = Some (stopReading s))"
proof -
  have i: "stopReading (stopReading s) = stopReading s"
    by (simp add: stopReading_def ttsStop_def cancel_def clearReadingPosition_def Let_def
        split: option.splits)
  have p: "case currentDocument s of
         None \<Rightarrow> positions (stopReading s) = positions s
       | Some d \<Rightarrow> positions (stopReading s) (docId d) = None"
    by (simp add: stopReading_def ttsStop_def cancel_def clearReadingPosition_def Let_def
        split: option.splits)
  have "run [ClickStop, ClickStop] s = Some (stopReading s)" if "jobs s = []"
    using that i by (simp add: step_def)
  with i p show ?thesis by simp
qed

theorem stop_idempotent_witness:
  "jobs (saveReadingPosition browserPlaying) = []
   \<and> positions (saveReadingPosition browserPlaying) ''doc_1''
       = Some \<lparr>positionParagraphIndex = 0, totalParagraphs = 3\<rparr>
   \<and> run [ClickStop, ClickStop] (saveReadingPosition browserPlaying)
       = Some (stopReading (saveReadingPosition browserPlaying))
   \<and> view (stopReading (saveReadingPosition browserPlaying)) = (False, False, 0, 0, [js ''A1.''])
   \<and> positions (stopReading (saveReadingPosition browserPlaying)) ''doc_1'' = None"
proof -
  let ?s = "saveReadingPosition browserPlaying"
  have j: "jobs ?s = []"
    by (simp add: sample_defs controller_defs)
  have p: "positions ?s ''doc_1'' = Some \<lparr>positionParagraphIndex = 0, totalParagraphs = 3\<rparr>"
    by (simp add: sample_defs controller_defs)
  have d: "currentDocument ?s = Some sampleBook"
    by (simp add: sample_defs controller_defs)
  have v: "spoken (stopReading ?s) = [js ''A1.'']"
    by (simp add: sample_defs controller_defs)
  from stop_idempotent [of ?s] j d v p show ?thesis
    by (simp add: view_def sampleBook_fields)
qed


text \<open>
  C4. While playing a document of n paragraphs, a skip by +1 or by -1 empties the queue of
  the engine. If the target is below n, the index of the paragraph becomes the target
  clamped into 0 .. n - 1 (a skip backward at paragraph 0 stays at 0), the index of the
  sentence becomes 0, the controller stays playing and the skip itself requests no speech.
  If the target is n or more, the controller is stopped with both indices 0 and the message
  that the document is finished, and no event other than an action of the user makes a
  request to speak afterwards.
\<close>

theorem skip_clamps:
  assumes "isPlaying s" and "\<not> isPaused s" and "paragraphs s \<noteq> []"
    and "direction = 1 \<or> direction = - 1"
  shows "queue (skipParagraph direction s) = []
    \<and> (int (currentParagraphIndex s) + direction < int (length (paragraphs s)) \<longrightarrow>
         int (currentParagraphIndex (skipParagraph direction s))
           = max 0 (min (int (length (paragraphs s)) - 1) (int (currentParagraphIndex s) + direction))
         \<and> currentSentenceIndex (skipParagraph direction s) = 0
         \<and> isPlaying (skipParagraph direction s) \<and> \<not> isPaused (skipParagraph direction s)
         \<and> spoken (skipParagraph direction s) = spoken s
         \<and> timers (skipParagraph direction s) = timers s @ [AfterSkipDelay])
    \<and> (int (currentParagraphIndex s) + direction \<ge> int (length (paragraphs s)) \<longrightarrow>
         \<not> isPlaying (skipParagraph direction s) \<and> \<not> isPaused (skipParagraph direction s)
         \<and> currentParagraphIndex (skipParagraph direction s) = 0
         \<and> currentSentenceIndex (skipParagraph direction s) = 0
         \<and> alerts (skipParagraph direction s) = alerts s @ [''Finished reading document!'']
         \<and> timers (skipParagraph direction s) = timers s
         \<and> spoken (skipParagraph direction s) = spoken s
         \<and> (\<forall>es s'. list_all (\<lambda>e. \<not> fromUser e) es
               \<and> run es (skipParagraph direction s) = Some s'
               \<longrightarrow> spoken s' = spoken s \<and> \<not> isPlaying s'))"
proof (intro conjI impI allI)
  show "queue (skipParagraph direction s) = []"
    using assms by (auto simp: skipParagraph_def skipTo_def ttsStop_def cancel_def alert_def Let_def)
next
  assume a: "int (currentParagraphIndex s) + direction < int (length (paragraphs s))"
  let ?s' = "skipParagraph direction s"
  from a assms show "int (currentParagraphIndex ?s')
      = max 0 (min (int (length (paragraphs s)) - 1) (int (currentParagraphIndex s) + direction))"
    by (auto simp: skipParagraph_def skipTo_def ttsStop_def cancel_def Let_def)
  from a assms show "currentSentenceIndex ?s' = 0" "isPlaying ?s'" "\<not> isPaused ?s'"
    "spoken ?s' = spoken s" "timers ?s' = timers s @ [AfterSkipDelay]"
    by (auto simp: skipParagraph_def skipTo_def ttsStop_def cancel_def Let_def spoken_def)
next
  assume a: "int (length (paragraphs s)) \<le> int (currentParagraphIndex s) + direction"
  let ?s' = "skipParagraph direction s"
  let ?s1 = "if isFlutter s then ttsStop s else cancel s"
  from a assms have s': "?s' = alert ''Finished reading document!'' (stopReading ?s1)"
    by (auto simp: skipParagraph_def ttsStop_def cancel_def Let_def)
  show "\<not> isPlaying ?s'" "\<not> isPaused ?s'" "currentParagraphIndex ?s' = 0"
    "currentSentenceIndex ?s' = 0" "alerts ?s' = alerts s @ [''Finished reading document!'']"
    "timers ?s' = timers s"
    unfolding s' by (simp_all add: alert_def ttsStop_def cancel_def)
  show sp: "spoken ?s' = spoken s"
    unfolding s' by (simp add: alert_def ttsStop_def cancel_def spoken_def)
  fix es s'
  assume "list_all (\<lambda>e. \<not> fromUser e) es \<and> run es ?s' = Some s'"
  with stopped_run [of ?s' es s'] \<open>\<not> isPlaying ?s'\<close> sp
  show "spoken s' = spoken s" "\<not> isPlaying s'" by simp_all
qed


theorem skip_clamps_witness:
  "view browserPlaying = (True, False, 0, 0, [js ''A1.''])
   \<and> queue browserPlaying = [0]
   \<and> view (skipParagraph (- 1) browserPlaying) = (True, False, 0, 0, [js ''A1.''])
   \<and> view (skipParagraph 1 browserPlaying) = (True, False, 1, 0, [js ''A1.''])
   \<and> queue (skipParagraph 1 browserPlaying) = []
   \<and> view browserLastParagraph = (True, False, 2, 0, [js ''A1.'', js ''B1.'', js ''C1.''])
   \<and> view (skipParagraph 1 browserLastParagraph)
       = (False, False, 0, 0, [js ''A1.'', js ''B1.'', js ''C1.''])
   \<and> alerts (skipParagraph 1 browserLastParagraph) = [''Finished reading document!'']
   \<and> map_option view (run [UtteranceEnd 2, TimerFires (NextSentence 2), RunJob]
         (skipParagraph 1 browserLastParagraph))
       = Some (False, False, 0, 0, [js ''A1.'', js ''B1.'', js ''C1.''])"
proof -
  let ?es = "[UtteranceEnd 2, TimerFires (NextSentence 2), RunJob]"
  let ?t = "skipParagraph 1 browserLastParagraph"
  have v: "view browserPlaying = (True, False, 0, 0, [js ''A1.''])"
    "queue browserPlaying = [0]" "length (paragraphs browserPlaying) = 3"
    "alerts browserPlaying = []"
    by (simp_all add: sample_defs controller_defs)
  have l: "view browserLastParagraph = (True, False, 2, 0, [js ''A1.'', js ''B1.'', js ''C1.''])"
    "length (paragraphs browserLastParagraph) = 3" "alerts browserLastParagraph = []"
    by (simp_all add: sample_defs controller_defs)
  from v have hv: "isPlaying browserPlaying" "\<not> isPaused browserPlaying"
    "paragraphs browserPlaying \<noteq> []" "currentParagraphIndex browserPlaying = 0"
    "currentSentenceIndex browserPlaying = 0" "spoken browserPlaying = [js ''A1.'']"
    by (auto simp: view_def)
  from l have hl: "isPlaying browserLastParagraph" "\<not> isPaused browserLastParagraph"
    "paragraphs browserLastParagraph \<noteq> []" "currentParagraphIndex browserLastParagraph = 2"
    "spoken browserLastParagraph = [js ''A1.'', js ''B1.'', js ''C1.'']"
    by (auto simp: view_def)
  have r: "run ?es ?t = Some (after ?es ?t)"
    by (simp add: sample_defs controller_defs)
  have c: "currentParagraphIndex (after ?es ?t) = 0" "currentSentenceIndex (after ?es ?t) = 0"
    "\<not> isPaused (after ?es ?t)"
    by (simp_all add: sample_defs controller_defs)
  have e: "list_all (\<lambda>e. \<not> fromUser e) ?es" by simp
  from skip_clamps [OF hv(1-3), of "- 1"] hv v
  have 1: "view (skipParagraph (- 1) browserPlaying) = (True, False, 0, 0, [js ''A1.''])"
    by (simp add: view_def)
  from skip_clamps [OF hv(1-3), of 1] hv v
  have 2: "view (skipParagraph 1 browserPlaying) = (True, False, 1, 0, [js ''A1.''])"
    "queue (skipParagraph 1 browserPlaying) = []"
    by (simp_all add: view_def)
  note k = skip_clamps [OF hl(1-3), of 1]
  from k hl l
  have 3: "view ?t = (False, False, 0, 0, [js ''A1.'', js ''B1.'', js ''C1.''])"
    "alerts ?t = [''Finished reading document!'']"
    by (simp_all add: view_def)
  from k hl l have "\<forall>es s'. list_all (\<lambda>e. \<not> fromUser e) es \<and> run es ?t = Some s'
      \<longrightarrow> spoken s' = spoken browserLastParagraph \<and> \<not> isPlaying s'"
    by simp
  with e r have "spoken (after ?es ?t) = spoken browserLastParagraph"
    "\<not> isPlaying (after ?es ?t)"
    by blast+
  with c hl have "view (after ?es ?t) = (False, False, 0, 0, [js ''A1.'', js ''B1.'', js ''C1.''])"
    by (simp add: view_def)
  with r have 4: "map_option view (run ?es ?t)
       = Some (False, False, 0, 0, [js ''A1.'', js ''B1.'', js ''C1.''])"
    by (metis option.simps(9))
  from v(1,2) 1 2 l(1) 3 4 show ?thesis by blast
qed







end
